theory Spec2Isabelle
  imports Complex_Main "HOL-Library.Sublist"
begin

section \<open>Python strings and numbers\<close>

text \<open>
  Strings are character lists. A character below 0x80 is that ASCII character. A
  character from 0x80 up is a byte of a file name that Python could not decode; it
  carries such a byte as a lone surrogate, which \<open>str.lower()\<close> leaves alone and which no
  strict encoder accepts: \<open>str.encode()\<close> and the \<open>write\<close> of a text file raise
  \<open>UnicodeEncodeError\<close> on it. Non-ASCII characters that do decode are not represented.

  \<open>lower\<close> is \<open>str.lower()\<close>, \<open>endswith\<close> is \<open>str.endswith\<close>, \<open>join\<close> is
  \<open>sep.join(xs)\<close>, \<open>str_encodable\<close> says that a strict encoder accepts the string.
\<close>

definition lower_char :: "char \<Rightarrow> char" where
  "lower_char c =
     (case map_of (zip ''ABCDEFGHIJKLMNOPQRSTUVWXYZ'' ''abcdefghijklmnopqrstuvwxyz'') c of
        Some l \<Rightarrow> l
      | None \<Rightarrow> c)"

definition lower :: "string \<Rightarrow> string" where
  "lower s = map lower_char s"

definition endswith :: "string \<Rightarrow> string \<Rightarrow> bool" where
  "endswith s suf = (length suf \<le> length s \<and> drop (length s - length suf) s = suf)"

definition is_ascii :: "char \<Rightarrow> bool" where
  "is_ascii c \<longleftrightarrow> (of_char c :: nat) < 128"

definition str_encodable :: "string \<Rightarrow> bool" where
  "str_encodable s = list_all is_ascii s"

fun join :: "string \<Rightarrow> string list \<Rightarrow> string" where
  "join sep [] = []"
| "join sep [x] = x"
| "join sep (x # y # ys) = x @ sep @ join sep (y # ys)"

text \<open>\<open>str(n)\<close> for a Python int: decimal digits, a minus sign when negative.\<close>

definition digit_char :: "nat \<Rightarrow> char" where
  "digit_char d = ''0123456789'' ! (d mod 10)"

function str_nat :: "nat \<Rightarrow> string" where
  "str_nat n = (if n < 10 then [digit_char n] else str_nat (n div 10) @ [digit_char (n mod 10)])"
  by pat_completeness auto
termination
  by (relation "measure id") auto

declare str_nat.simps [simp del]

definition str_int :: "int \<Rightarrow> string" where
  "str_int i = (if i < 0 then CHR ''-'' # str_nat (nat (- i)) else str_nat (nat i))"

text \<open>
  \<open>format_1f n d\<close> is \<open>f"{n / d:.1f}"\<close> for \<open>0 \<le> n\<close>, \<open>0 < d\<close>: the quotient rounded
  to one decimal place, ties to the even tenth. The program divides a byte count by
  \<open>1024 * 1024\<close>; a division by a power of two is exact in a double for every byte
  count below \<open>2 ^ 53\<close> (\<open>size_mb_exact\<close> below), so the digits printed are those of
  the exact quotient.
\<close>

definition round_half_even :: "nat \<Rightarrow> nat \<Rightarrow> nat" where
  "round_half_even n d =
     (let fl = n div d; r = n mod d
      in if 2 * r > d \<or> (2 * r = d \<and> odd fl) then fl + 1 else fl)"

definition format_1f :: "nat \<Rightarrow> nat \<Rightarrow> string" where
  "format_1f n d =
     (let tenths = round_half_even (10 * n) d
      in str_nat (tenths div 10) @ ''.'' @ [digit_char (tenths mod 10)])"

text \<open>
  \<open>int(a / b)\<close> for Python ints: \<open>ZeroDivisionError\<close> (here \<open>None\<close>) when \<open>b = 0\<close>,
  else the quotient truncated toward zero. Python computes \<open>a / b\<close> as a double nearest
  to the exact quotient before \<open>int\<close> truncates it; for \<open>0 \<le> a < 2 ^ 53\<close> and \<open>0 < b\<close>
  every such double has the integer part of the exact quotient (\<open>int_truediv_double\<close>
  below), and the theorems on \<open>int_truediv\<close> stay in that range.
\<close>

definition int_truediv :: "int \<Rightarrow> int \<Rightarrow> int option" where
  "int_truediv a b =
     (if b = 0 then None else Some (sgn a * sgn b * (\<bar>a\<bar> div \<bar>b\<bar>)))"

text \<open>
  The finite doubles: a significand below \<open>2 ^ 53\<close> in absolute value, times a power
  of two between \<open>2 ^ - 1074\<close> and \<open>2 ^ 971\<close>. \<open>nearest_double q x\<close>: no double is
  nearer to \<open>q\<close> than the double \<open>x\<close>.
\<close>

definition is_double :: "rat \<Rightarrow> bool" where
  "is_double x \<longleftrightarrow>
     (\<exists>m::int. \<exists>e::nat. \<bar>m\<bar> < 2 ^ 53
        \<and> ((x = of_int m * 2 ^ e \<and> e \<le> 971) \<or> (x = of_int m / 2 ^ e \<and> e \<le> 1074)))"

definition nearest_double :: "rat \<Rightarrow> rat \<Rightarrow> bool" where
  "nearest_double q x \<longleftrightarrow> is_double x \<and> (\<forall>y. is_double y \<longrightarrow> \<bar>q - x\<bar> \<le> \<bar>q - y\<bar>)"

section \<open>Images, files and the world the program runs in\<close>

type_synonym path = string
type_synonym colour = "int \<times> int \<times> int"

text \<open>
  A PIL image: its size, its mode and its pixels (as RGB triples, read at
  \<open>0 \<le> x < width\<close>, \<open>0 \<le> y < height\<close>).
\<close>

record image =
  width :: int
  height :: int
  mode :: string
  pixel :: "int \<Rightarrow> int \<Rightarrow> colour"

text \<open>
  What the program can observe of a file: the two \<open>os.stat\<close> fields it reads, and what
  PIL does with the bytes. \<open>pil_open\<close> is \<open>Image.open\<close> (\<open>Inl\<close> the text of the
  exception), \<open>pil_verify\<close> the exception of \<open>img.verify()\<close> if it raises, \<open>pil_load\<close>
  the exception raised when the pixel data is decoded, if it is.
\<close>

record file_info =
  st_mtime :: rat
  st_size :: nat
  pil_open :: "string + image"
  pil_verify :: "string option"
  pil_load :: "string option"

datatype io_event =
    EvStat path | EvExists path | EvGetsize path | EvImageOpen path | EvImageVerify path
  | EvImageSave path | EvMakedirs path | EvWriteText path | EvWalk path

text \<open>
  The state threaded through the program: the three counters of \<open>ImageProcessor\<close>, and
  the file system. \<open>files\<close> holds every path \<open>os.stat\<close> succeeds on, \<open>denied\<close> the
  paths the process cannot create or write, \<open>tree\<close> the triples \<open>os.walk\<close> yields for a
  directory, \<open>clock\<close> the reading of \<open>time.time()\<close>. \<open>trace\<close> records the file-system
  calls in the order they are made. Log lines are not modelled.
\<close>

record state =
  processed_count :: int
  skipped_count :: int
  error_count :: int
  files :: "path \<rightharpoonup> file_info"
  denied :: "path \<Rightarrow> bool"
  tree :: "path \<Rightarrow> (path \<times> path list \<times> path list) list"
  clock :: rat
  trace :: "io_event list"

datatype exn = FileNotFoundError path | OSError path | UnicodeEncodeError string

datatype 'a outcome = Returns 'a state | Raises exn state

text \<open>
  The library functions the program calls and this development does not define: the
  digest, the rendering of a float, the path functions of \<open>os.path\<close>, the pixel
  operations and the encoder of PIL, the text of an \<open>OSError\<close> and the file a write
  leaves behind. \<open>out_of_memory\<close> holds of the sizes for which PIL cannot allocate an
  image.
\<close>

record lib =
  md5_hexdigest :: "string \<Rightarrow> string"
  str_float :: "rat \<Rightarrow> string"
  os_error_text :: "path \<Rightarrow> string"
  path_join :: "path \<Rightarrow> path \<Rightarrow> path"
  path_basename :: "path \<Rightarrow> string"
  path_splitext :: "string \<Rightarrow> string \<times> string"
  lanczos :: "image \<Rightarrow> int \<times> int \<Rightarrow> int \<Rightarrow> int \<Rightarrow> colour"
  out_of_memory :: "int \<times> int \<Rightarrow> bool"
  convert :: "image \<Rightarrow> string \<Rightarrow> string + image"
  paste_alpha :: "image \<Rightarrow> image \<Rightarrow> string + image"
  exif_transpose :: "image \<Rightarrow> string + image"
  jpeg_file :: "image \<Rightarrow> int \<Rightarrow> string + file_info"
  text_file :: "string \<Rightarrow> file_info"

subsection \<open>File-system calls\<close>

definition traced :: "io_event \<Rightarrow> state \<Rightarrow> state" where
  "traced ev s = s\<lparr>trace := trace s @ [ev]\<rparr>"

definition os_stat :: "state \<Rightarrow> path \<Rightarrow> file_info outcome" where
  "os_stat s p =
     (case files s p of
        None \<Rightarrow> Raises (FileNotFoundError p) (traced (EvStat p) s)
      | Some f \<Rightarrow> Returns f (traced (EvStat p) s))"

definition os_path_exists :: "state \<Rightarrow> path \<Rightarrow> bool \<times> state" where
  "os_path_exists s p = (files s p \<noteq> None, traced (EvExists p) s)"

definition os_path_getsize :: "lib \<Rightarrow> state \<Rightarrow> path \<Rightarrow> (string + nat) \<times> state" where
  "os_path_getsize L s p =
     (case files s p of
        None \<Rightarrow> (Inl (os_error_text L p), traced (EvGetsize p) s)
      | Some f \<Rightarrow> (Inr (st_size f), traced (EvGetsize p) s))"

definition os_makedirs :: "state \<Rightarrow> path \<Rightarrow> unit outcome" where
  "os_makedirs s d =
     (if denied s d then Raises (OSError d) (traced (EvMakedirs d) s)
      else Returns () (traced (EvMakedirs d) s))"

text \<open>
  \<open>with open(p, 'w') as f: f.write(txt)\<close>. \<open>open\<close> creates or empties the file; the
  write then encodes the text strictly, and a text that does not encode leaves the
  empty file behind.
\<close>

definition write_text :: "lib \<Rightarrow> state \<Rightarrow> path \<Rightarrow> string \<Rightarrow> unit outcome" where
  "write_text L s p txt =
     (if denied s p then Raises (OSError p) (traced (EvWriteText p) s)
      else if \<not> str_encodable txt
      then Raises (UnicodeEncodeError txt)
             (traced (EvWriteText p) (s\<lparr>files := (files s)(p \<mapsto> text_file L [])\<rparr>))
      else Returns () (traced (EvWriteText p) (s\<lparr>files := (files s)(p \<mapsto> text_file L txt)\<rparr>)))"

subsection \<open>PIL calls\<close>

text \<open>
  PIL hands the two sides of a size to C as \<open>int\<close>s: a side outside the 32-bit range
  is an \<open>OverflowError\<close>.
\<close>

definition c_int :: "int \<Rightarrow> bool" where
  "c_int n \<longleftrightarrow> - (2 ^ 31) \<le> n \<and> n \<le> 2 ^ 31 - 1"

text \<open>
  \<open>Image.new(mode, size, colour)\<close>: a \<open>ValueError\<close> for a negative side, an
  \<open>OverflowError\<close> for a side that is no C \<open>int\<close>, a \<open>MemoryError\<close> when the image
  cannot be allocated; otherwise \<open>filled\<close>, an image of that size in the one colour.
\<close>

definition filled :: "string \<Rightarrow> int \<times> int \<Rightarrow> colour \<Rightarrow> image" where
  "filled m sz c = \<lparr> width = fst sz, height = snd sz, mode = m, pixel = (\<lambda>x y. c) \<rparr>"

definition Image_new :: "lib \<Rightarrow> string \<Rightarrow> int \<times> int \<Rightarrow> colour \<Rightarrow> string + image" where
  "Image_new L m sz c =
     (if fst sz < 0 \<or> snd sz < 0 then Inl ''Width and height must be >= 0''
      else if \<not> c_int (fst sz) \<or> \<not> c_int (snd sz)
      then Inl ''Python int too large to convert to C int''
      else if out_of_memory L sz then Inl ''MemoryError''
      else Inr (filled m sz c))"

text \<open>
  \<open>img.resize(size, LANCZOS)\<close> to a size other than the image's own: an
  \<open>OverflowError\<close> for a side that is no C \<open>int\<close>, a \<open>ValueError\<close> for a side below 1,
  a \<open>MemoryError\<close> when the result cannot be allocated; otherwise an image of exactly
  the size asked for, with the resampled pixels of the library.
\<close>

definition Image_resize :: "lib \<Rightarrow> image \<Rightarrow> int \<times> int \<Rightarrow> string + image" where
  "Image_resize L img sz =
     (if \<not> c_int (fst sz) \<or> \<not> c_int (snd sz)
      then Inl ''Python int too large to convert to C int''
      else if fst sz < 1 \<or> snd sz < 1 then Inl ''height and width must be > 0''
      else if out_of_memory L sz then Inl ''MemoryError''
      else Inr \<lparr> width = fst sz, height = snd sz, mode = mode img, pixel = lanczos L img sz \<rparr>)"

text \<open>
  \<open>dst.paste(src, (xo, yo))\<close> without a mask: the pixels of \<open>dst\<close> inside the box that
  \<open>src\<close> covers are replaced, the others kept; size and mode of \<open>dst\<close> stay.
\<close>

definition paste :: "image \<Rightarrow> image \<Rightarrow> int \<times> int \<Rightarrow> image" where
  "paste dst src off =
     dst\<lparr>pixel :=
       (\<lambda>x y. if fst off \<le> x \<and> x < fst off + width src \<and> snd off \<le> y \<and> y < snd off + height src
              then pixel src (x - fst off) (y - snd off)
              else pixel dst x y)\<rparr>"

text \<open>
  \<open>Image.open\<close>: the image on success, with the file it was read from; PIL reads the
  header only and decodes the pixel data later, at the first operation that needs it.
\<close>

definition Image_open :: "lib \<Rightarrow> state \<Rightarrow> path \<Rightarrow> (string + image \<times> file_info) \<times> state" where
  "Image_open L s p =
     (case files s p of
        None \<Rightarrow> (Inl (os_error_text L p), traced (EvImageOpen p) s)
      | Some f \<Rightarrow>
          (case pil_open f of
             Inl e \<Rightarrow> (Inl e, traced (EvImageOpen p) s)
           | Inr img \<Rightarrow> (Inr (img, f), traced (EvImageOpen p) s)))"

definition Image_save :: "lib \<Rightarrow> state \<Rightarrow> image \<Rightarrow> path \<Rightarrow> int \<Rightarrow> string option \<times> state" where
  "Image_save L s img p q =
     (if denied s p then (Some (os_error_text L p), traced (EvImageSave p) s)
      else case jpeg_file L img q of
             Inl e \<Rightarrow> (Some e, traced (EvImageSave p) s)
           | Inr f \<Rightarrow> (None, traced (EvImageSave p) (s\<lparr>files := (files s)(p \<mapsto> f)\<rparr>)))"

section \<open>Configuration (config.py)\<close>

record config =
  min_width :: int
  quality :: int
  supported_formats :: "string list"
  input_dir :: path
  output_dir :: path
  max_file_size_mb :: int
  enable_caching :: bool
  cache_dir :: path
  retry_attempts :: int
  retry_delay :: int

text \<open>
  \<open>Config.__init__\<close>, with the values it parses from the environment taken as
  arguments. The formats and the input directory are the literals of the source.
\<close>

definition Config_init ::
  "lib \<Rightarrow> int \<Rightarrow> int \<Rightarrow> int \<Rightarrow> bool \<Rightarrow> path \<Rightarrow> int \<Rightarrow> int \<Rightarrow> config" where
  "Config_init L mw q mfs ec cd ra rd =
     (let indir = ''C:'' @ [CHR 0x5C] @ ''Users'' @ [CHR 0x5C] @ ''Victor Akello'' @ [CHR 0x5C]
                  @ ''Desktop'' @ [CHR 0x5C] @ ''Jiji Items'' @ [CHR 0x5C] @ ''Services 70''
                  @ [CHR 0x5C] @ ''web design 15''
      in \<lparr> min_width = mw, quality = q, supported_formats = [''.jpg'', ''.jpeg'', ''.png''],
           input_dir = indir, output_dir = path_join L indir ''ready-images'',
           max_file_size_mb = mfs, enable_caching = ec, cache_dir = cd,
           retry_attempts = ra, retry_delay = rd \<rparr>)"

definition is_valid_image_format :: "config \<Rightarrow> string \<Rightarrow> bool" where
  "is_valid_image_format cfg filename =
     list_ex (\<lambda>ext. endswith (lower filename) ext) (supported_formats cfg)"

section \<open>The processor (image\_service.py)\<close>

subsection \<open>Validation\<close>

text \<open>
  The \<open>try\<close> block of \<open>validate_image\<close>; whatever is raised inside becomes the
  ``Error validating image'' answer. The size in MB is the float quotient of the byte
  count by \<open>1024 * 1024\<close>, exact below \<open>2 ^ 53\<close> bytes, so comparing it with the limit
  compares the byte count with the limit times \<open>1024 * 1024\<close>.
\<close>

definition validate_image ::
  "lib \<Rightarrow> config \<Rightarrow> state \<Rightarrow> path \<Rightarrow> (bool \<times> string \<times> bool) \<times> state" where
  "validate_image L cfg s image_path =
     (if \<not> is_valid_image_format cfg image_path
      then ((False, ''Invalid image extension. Supported formats are ''
                     @ join '', '' (supported_formats cfg), False), s)
      else
        (case os_path_exists s image_path of
           (False, s1) \<Rightarrow> ((False, ''File does not exist'', False), s1)
         | (True, s1) \<Rightarrow>
             (case os_path_getsize L s1 image_path of
                (Inl e, s2) \<Rightarrow> ((False, ''Error validating image: '' @ e, False), s2)
              | (Inr sz, s2) \<Rightarrow>
                  if int sz > max_file_size_mb cfg * (1024 * 1024)
                  then ((False, ''File too large ('' @ format_1f sz (1024 * 1024)
                                 @ ''MB). Maximum allowed: '' @ str_int (max_file_size_mb cfg)
                                 @ ''MB'', False), s2)
                  else
                    (case Image_open L s2 image_path of
                       (Inl e, s3) \<Rightarrow> ((False, ''Error validating image: '' @ e, False), s3)
                     | (Inr (img, f), s3) \<Rightarrow>
                         (case pil_verify f of
                            Some e \<Rightarrow> ((False, ''Error validating image: '' @ e, False),
                                       traced (EvImageVerify image_path) s3)
                          | None \<Rightarrow>
                              let needs_borders = width img < min_width cfg
                              in ((True, [], needs_borders),
                                  traced (EvImageVerify image_path) s3))))))"

subsection \<open>Transformation\<close>

definition add_dark_borders :: "lib \<Rightarrow> config \<Rightarrow> image \<Rightarrow> string + image" where
  "add_dark_borders L cfg img =
     (if width img \<ge> min_width cfg then Inr img
      else
        let new_width = min_width cfg
        in case int_truediv (new_width * height img) (width img) of
             None \<Rightarrow> Inl ''division by zero''
           | Some new_height \<Rightarrow>
               (case Image_resize L img (new_width, new_height) of
                  Inl e \<Rightarrow> Inl e
                | Inr resized_img \<Rightarrow>
                    (case Image_new L ''RGB'' (new_width, new_height) (0, 0, 0) of
                       Inl e \<Rightarrow> Inl e
                     | Inr dark_background \<Rightarrow>
                         let x_offset = 0;
                             y_offset = 0
                         in Inr (paste dark_background resized_img (x_offset, y_offset)))))"

text \<open>
  Every path through \<open>process_image\<close> decodes the pixel data (in \<open>convert\<close>,
  \<open>paste\<close>, \<open>exif_transpose\<close> or \<open>save\<close>) before anything is written, so a file
  whose data does not decode fails right after it is opened. Whatever is raised is
  caught and turned into \<open>False\<close>.
\<close>

definition process_image ::
  "lib \<Rightarrow> config \<Rightarrow> state \<Rightarrow> path \<Rightarrow> path \<Rightarrow> bool \<Rightarrow> bool \<times> state" where
  "process_image L cfg s input_path output_path add_borders =
     (case Image_open L s input_path of
        (Inl e, s1) \<Rightarrow> (False, s1)
      | (Inr (img, f), s1) \<Rightarrow>
          (case pil_load f of
             Some e \<Rightarrow> (False, s1)
           | None \<Rightarrow>
               (case (if mode img \<in> set [''RGBA'', ''LA'', ''P'']
                      then
                        (case Image_new L ''RGB'' (width img, height img) (255, 255, 255) of
                           Inl e \<Rightarrow> Inl e
                         | Inr background \<Rightarrow>
                             (case (if mode img = ''P'' then convert L img ''RGBA''
                                    else Inr img) of
                                Inl e \<Rightarrow> Inl e
                              | Inr img1 \<Rightarrow>
                                  if mode img1 = ''RGBA'' then paste_alpha L background img1
                                  else Inr (paste background img1 (0, 0))))
                      else if mode img \<noteq> ''RGB'' then convert L img ''RGB''
                      else Inr img) of
                  Inl e \<Rightarrow> (False, s1)
                | Inr rgb \<Rightarrow>
                    (case exif_transpose L rgb of
                       Inl e \<Rightarrow> (False, s1)
                     | Inr img2 \<Rightarrow>
                         (case (if add_borders then add_dark_borders L cfg img2 else Inr img2) of
                            Inl e \<Rightarrow> (False, s1)
                          | Inr img3 \<Rightarrow>
                              (case Image_save L s1 img3 output_path (quality cfg) of
                                 (Some e, s2) \<Rightarrow> (False, s2)
                               | (None, s2) \<Rightarrow> (True, s2)))))))"

subsection \<open>The marker cache\<close>

text \<open>
  The key is the digest of the encoded string; \<open>encode()\<close> raises on a string that
  does not encode, after the \<open>stat\<close>.
\<close>

definition get_cache_key :: "lib \<Rightarrow> state \<Rightarrow> path \<Rightarrow> string outcome" where
  "get_cache_key L s file_path =
     (case os_stat s file_path of
        Raises e s1 \<Rightarrow> Raises e s1
      | Returns st s1 \<Rightarrow>
          let key = file_path @ ''_'' @ str_float L (st_mtime st) @ ''_''
                    @ str_int (int (st_size st))
          in if str_encodable key then Returns (md5_hexdigest L key) s1
             else Raises (UnicodeEncodeError key) s1)"

definition is_cached :: "lib \<Rightarrow> config \<Rightarrow> state \<Rightarrow> path \<Rightarrow> bool outcome" where
  "is_cached L cfg s file_path =
     (if \<not> enable_caching cfg then Returns False s
      else
        (case get_cache_key L s file_path of
           Raises e s1 \<Rightarrow> Raises e s1
         | Returns cache_key s1 \<Rightarrow>
             let cache_file = path_join L (cache_dir cfg) (cache_key @ ''.txt'')
             in case os_path_exists s1 cache_file of (b, s2) \<Rightarrow> Returns b s2))"

definition mark_as_cached :: "lib \<Rightarrow> config \<Rightarrow> state \<Rightarrow> path \<Rightarrow> unit outcome" where
  "mark_as_cached L cfg s file_path =
     (if \<not> enable_caching cfg then Returns () s
      else
        (case get_cache_key L s file_path of
           Raises e s1 \<Rightarrow> Raises e s1
         | Returns cache_key s1 \<Rightarrow>
             let cache_file = path_join L (cache_dir cfg) (cache_key @ ''.txt'')
             in (case os_makedirs s1 (cache_dir cfg) of
                   Raises e s2 \<Rightarrow> Raises e s2
                 | Returns u s2 \<Rightarrow>
                     write_text L s2 cache_file
                       (''Processed: '' @ file_path @ [CHR 0x0A] @ ''Timestamp: ''
                        @ str_float L (clock s2)))))"

subsection \<open>One file, and a directory\<close>

definition process_single_image :: "lib \<Rightarrow> config \<Rightarrow> state \<Rightarrow> path \<Rightarrow> bool outcome" where
  "process_single_image L cfg s input_path =
     (case is_cached L cfg s input_path of
        Raises e s1 \<Rightarrow> Raises e s1
      | Returns True s1 \<Rightarrow> Returns True (s1\<lparr>skipped_count := skipped_count s1 + 1\<rparr>)
      | Returns False s1 \<Rightarrow>
          (case validate_image L cfg s1 input_path of
             ((False, error_msg, needs_borders), s2) \<Rightarrow>
               Returns False (s2\<lparr>error_count := error_count s2 + 1\<rparr>)
           | ((True, error_msg, needs_borders), s2) \<Rightarrow>
               let filename = path_basename L input_path;
                   name = fst (path_splitext L filename);
                   suffix = (if needs_borders then ''_processed_with_borders'' else ''_processed'');
                   output_filename = name @ suffix @ ''.jpg'';
                   output_path = path_join L (output_dir cfg) output_filename
               in (case process_image L cfg s2 input_path output_path needs_borders of
                     (True, s3) \<Rightarrow>
                       (case mark_as_cached L cfg s3 input_path of
                          Raises e s4 \<Rightarrow> Raises e s4
                        | Returns u s4 \<Rightarrow>
                            Returns True (s4\<lparr>processed_count := processed_count s4 + 1\<rparr>))
                   | (False, s3) \<Rightarrow>
                       Returns False (s3\<lparr>error_count := error_count s3 + 1\<rparr>))))"

text \<open>The two nested loops over \<open>os.walk\<close> that fill \<open>image_files\<close>.\<close>

fun collect_files :: "lib \<Rightarrow> config \<Rightarrow> path \<Rightarrow> string list \<Rightarrow> path list \<Rightarrow> path list" where
  "collect_files L cfg dirpath [] image_files = image_files"
| "collect_files L cfg dirpath (file # rest) image_files =
     collect_files L cfg dirpath rest
       (if is_valid_image_format cfg file then image_files @ [path_join L dirpath file]
        else image_files)"

fun collect_walk ::
  "lib \<Rightarrow> config \<Rightarrow> (path \<times> path list \<times> string list) list \<Rightarrow> path list \<Rightarrow> path list" where
  "collect_walk L cfg [] image_files = image_files"
| "collect_walk L cfg ((dirpath, dirs, fs) # rest) image_files =
     collect_walk L cfg rest (collect_files L cfg dirpath fs image_files)"

text \<open>The loop \<open>for image_path in image_files\<close>: an exception leaves it.\<close>

fun process_each :: "lib \<Rightarrow> config \<Rightarrow> path list \<Rightarrow> state \<Rightarrow> unit outcome" where
  "process_each L cfg [] s = Returns () s"
| "process_each L cfg (image_path # rest) s =
     (case process_single_image L cfg s image_path of
        Raises e s1 \<Rightarrow> Raises e s1
      | Returns b s1 \<Rightarrow> process_each L cfg rest s1)"

definition process_directory ::
  "lib \<Rightarrow> config \<Rightarrow> state \<Rightarrow> path \<Rightarrow> (string \<times> int) list outcome" where
  "process_directory L cfg s directory_path =
     (let s0 = s\<lparr>processed_count := 0, skipped_count := 0, error_count := 0\<rparr>
      in (case os_makedirs s0 (output_dir cfg) of
            Raises e s1 \<Rightarrow> Raises e s1
          | Returns u s1 \<Rightarrow>
              let image_files = collect_walk L cfg (tree s1 directory_path) [];
                  s2 = traced (EvWalk directory_path) s1
              in (case process_each L cfg image_files s2 of
                    Raises e s3 \<Rightarrow> Raises e s3
                  | Returns u s3 \<Rightarrow>
                      Returns [(''processed'', processed_count s3),
                               (''skipped'', skipped_count s3),
                               (''errors'', error_count s3),
                               (''total'', int (length image_files))] s3)))"

section \<open>Observations and the claims in the spec's words\<close>

definition image_size :: "image \<Rightarrow> int \<times> int" where
  "image_size img = (width img, height img)"

definition result_size :: "string + image \<Rightarrow> (int \<times> int) option" where
  "result_size r = (case r of Inl e \<Rightarrow> None | Inr img \<Rightarrow> Some (image_size img))"

definition result_pixel :: "string + image \<Rightarrow> int \<Rightarrow> int \<Rightarrow> colour option" where
  "result_pixel r x y = (case r of Inl e \<Rightarrow> None | Inr img \<Rightarrow> Some (pixel img x y))"

definition returned :: "'a outcome \<Rightarrow> 'a option" where
  "returned r = (case r of Returns v s \<Rightarrow> Some v | Raises e s \<Rightarrow> None)"

definition raised :: "'a outcome \<Rightarrow> exn option" where
  "raised r = (case r of Returns v s \<Rightarrow> None | Raises e s \<Rightarrow> Some e)"

definition final :: "'a outcome \<Rightarrow> state" where
  "final r = (case r of Returns v s \<Rightarrow> s | Raises e s \<Rightarrow> s)"

definition counters :: "state \<Rightarrow> int \<times> int \<times> int" where
  "counters s = (processed_count s, skipped_count s, error_count s)"

text \<open>
  \<open>same_world s s0\<close>: \<open>s0\<close> has the permissions, the directory listing and the
  counters of \<open>s\<close>, and every file of \<open>s\<close> still exists in it.
\<close>

definition same_world :: "state \<Rightarrow> state \<Rightarrow> bool" where
  "same_world s s0 \<longleftrightarrow>
     denied s0 = denied s \<and> tree s0 = tree s \<and> counters s0 = counters s
     \<and> (\<forall>q. files s q \<noteq> None \<longrightarrow> files s0 q \<noteq> None)"

text \<open>
  \<open>can_allocate L sz\<close>: PIL can make an image of the size \<open>sz\<close>, both sides being C
  \<open>int\<close>s and the memory there.
  \<open>ascii_floats L\<close>: the rendering of a float is ASCII, as Python's is.
  \<open>cache_writable L cfg s\<close>: the cache directory can be created and every file in it
  written.
\<close>

definition can_allocate :: "lib \<Rightarrow> int \<times> int \<Rightarrow> bool" where
  "can_allocate L sz \<longleftrightarrow> c_int (fst sz) \<and> c_int (snd sz) \<and> \<not> out_of_memory L sz"

definition ascii_floats :: "lib \<Rightarrow> bool" where
  "ascii_floats L \<longleftrightarrow> (\<forall>r. str_encodable (str_float L r))"

definition cache_writable :: "lib \<Rightarrow> config \<Rightarrow> state \<Rightarrow> bool" where
  "cache_writable L cfg s \<longleftrightarrow>
     \<not> denied s (cache_dir cfg) \<and> (\<forall>k. \<not> denied s (path_join L (cache_dir cfg) k))"

text \<open>The number a string of decimal digits denotes.\<close>

definition digits_value :: "string \<Rightarrow> nat" where
  "digits_value ds = foldl (\<lambda>v c. 10 * v + (of_char c - 48)) 0 ds"

text \<open>
  The size the spec gives the bordered image: the minimum width, and
  \<open>round(minWidth * height / width)\<close>, rounding to the nearest integer.
\<close>

definition spec_border_size :: "config \<Rightarrow> image \<Rightarrow> int \<times> int" where
  "spec_border_size cfg img =
     (min_width cfg, round (of_int (min_width cfg * height img) / of_int (width img) :: rat))"

section \<open>A library instance and inputs for evaluation\<close>

text \<open>
  An instance of the library interface on which the definitions compute: nearest
  neighbour for the resampling filter, the identity for the digest, POSIX paths,
  memory for every image.
\<close>

definition nearest :: "image \<Rightarrow> int \<times> int \<Rightarrow> int \<Rightarrow> int \<Rightarrow> colour" where
  "nearest img sz x y = pixel img (x * width img div fst sz) (y * height img div snd sz)"

definition basename_posix :: "path \<Rightarrow> string" where
  "basename_posix p = rev (takeWhile (\<lambda>c. c \<noteq> CHR ''/'') (rev p))"

definition splitext_posix :: "string \<Rightarrow> string \<times> string" where
  "splitext_posix n =
     (if CHR ''.'' \<in> set n
      then (rev (tl (dropWhile (\<lambda>c. c \<noteq> CHR ''.'') (rev n))),
            CHR ''.'' # rev (takeWhile (\<lambda>c. c \<noteq> CHR ''.'') (rev n)))
      else (n, []))"

definition example_lib :: lib where
  "example_lib =
     \<lparr> md5_hexdigest = (\<lambda>s. s),
       str_float = (\<lambda>r. str_int (floor r) @ ''.0''),
       os_error_text = (\<lambda>p. ''No such file or directory: '' @ p),
       path_join = (\<lambda>a b. a @ ''/'' @ b),
       path_basename = basename_posix,
       path_splitext = splitext_posix,
       lanczos = nearest,
       out_of_memory = (\<lambda>sz. False),
       convert = (\<lambda>img m. Inr (img\<lparr>mode := m\<rparr>)),
       paste_alpha = (\<lambda>bg img. Inr (paste bg img (0, 0))),
       exif_transpose = Inr,
       jpeg_file = (\<lambda>img q. Inr \<lparr> st_mtime = 0, st_size = 1, pil_open = Inr img,
                                    pil_verify = None, pil_load = None \<rparr>),
       text_file = (\<lambda>t. \<lparr> st_mtime = 0, st_size = length t,
                            pil_open = Inl ''cannot identify image file'',
                            pil_verify = None, pil_load = None \<rparr>) \<rparr>"

text \<open>The configuration of the source's defaults: minimum width 600, caching on.\<close>

definition default_config :: config where
  "default_config = Config_init example_lib 600 85 10 True ''cache'' 3 1"

definition white_image :: "int \<Rightarrow> int \<Rightarrow> image" where
  "white_image w h = filled ''RGB'' (w, h) (255, 255, 255)"

text \<open>
  A small world: a directory \<open>in\<close> with a narrow photo, an undecodable file, a
  truncated image, a file of 11 MB and a text file; nothing cached, nothing denied.
  The counters start at 7 to show that a batch resets them.
\<close>

definition photo_file :: file_info where
  "photo_file = \<lparr> st_mtime = 1700000000, st_size = 2048,
                   pil_open = Inr (white_image 200 400), pil_verify = None, pil_load = None \<rparr>"

definition corrupt_file :: file_info where
  "corrupt_file = \<lparr> st_mtime = 1700000001, st_size = 100,
                     pil_open = Inl ''cannot identify image file'', pil_verify = None,
                     pil_load = None \<rparr>"

definition truncated_file :: file_info where
  "truncated_file = \<lparr> st_mtime = 1700000002, st_size = 1024,
                       pil_open = Inr (white_image 800 400),
                       pil_verify = Some ''Truncated File Read'',
                       pil_load = Some ''image file is truncated'' \<rparr>"

definition large_file :: file_info where
  "large_file = \<lparr> st_mtime = 1700000003, st_size = 11534336,
                   pil_open = Inr (white_image 800 400), pil_verify = None, pil_load = None \<rparr>"

definition example_world :: state where
  "example_world =
     \<lparr> processed_count = 7, skipped_count = 7, error_count = 7,
       files = [''in/a.jpg'' \<mapsto> photo_file, ''in/b.png'' \<mapsto> corrupt_file,
                ''in/c.jpeg'' \<mapsto> truncated_file, ''in/large.jpg'' \<mapsto> large_file],
       denied = (\<lambda>p. False),
       tree = (\<lambda>d. if d = ''in''
                    then [(''in'', [], [''a.jpg'', ''b.png'', ''notes.txt''])] else []),
       clock = 1700000100,
       trace = [] \<rparr>"

text \<open>
  Variations: caching switched off; the marker of \<open>in/a.jpg\<close> already written; a
  directory that lists a name \<open>ghost.jpg\<close> no file stands behind (a dangling link)
  before the photo; the cache directory not creatable; nothing creatable at all.
\<close>

definition nocache_config :: config where
  "nocache_config = Config_init example_lib 600 85 10 False ''cache'' 3 1"

definition cached_world :: state where
  "cached_world =
     example_world\<lparr>files := (files example_world)
       (''cache/in/a.jpg_1700000000.0_2048.txt'' \<mapsto> text_file example_lib ''Processed: in/a.jpg'')\<rparr>"

definition ghost_world :: state where
  "ghost_world =
     example_world\<lparr>tree := (\<lambda>d. if d = ''in''
                                then [(''in'', [], [''ghost.jpg'', ''a.jpg''])] else [])\<rparr>"

definition locked_world :: state where
  "locked_world = example_world\<lparr>denied := (\<lambda>p. p = ''cache'')\<rparr>"

definition readonly_world :: state where
  "readonly_world = example_world\<lparr>denied := (\<lambda>p. True)\<rparr>"

text \<open>
  A file whose name holds a byte that does not decode (0xE9, Latin-1 for an accented
  e), in a world that has the photo under that name too.
\<close>

definition escaped_name :: path where
  "escaped_name = ''in/caf'' @ [CHR 0xE9] @ ''.jpg''"

definition escaped_world :: state where
  "escaped_world = example_world\<lparr>files := (files example_world)(escaped_name \<mapsto> photo_file)\<rparr>"

section \<open>Theorems\<close>

subsection \<open>Helper facts\<close>

lemma Config_init_simps:
  "min_width (Config_init L mw q mfs ec cd ra rd) = mw"
  "quality (Config_init L mw q mfs ec cd ra rd) = q"
  "supported_formats (Config_init L mw q mfs ec cd ra rd) = [''.jpg'', ''.jpeg'', ''.png'']"
  "max_file_size_mb (Config_init L mw q mfs ec cd ra rd) = mfs"
  "enable_caching (Config_init L mw q mfs ec cd ra rd) = ec"
  "cache_dir (Config_init L mw q mfs ec cd ra rd) = cd"
  by (simp_all add: Config_init_def Let_def)

lemma traced_simps [simp]:
  "files (traced ev s) = files s" "denied (traced ev s) = denied s" "tree (traced ev s) = tree s"
  "clock (traced ev s) = clock s" "trace (traced ev s) = trace s @ [ev]"
  "processed_count (traced ev s) = processed_count s"
  "skipped_count (traced ev s) = skipped_count s"
  "error_count (traced ev s) = error_count s"
  by (simp_all add: traced_def)

lemma example_world_simps:
  "files example_world ''in/a.jpg'' = Some photo_file"
  "files example_world ''in/b.png'' = Some corrupt_file"
  "files example_world ''in/c.jpeg'' = Some truncated_file"
  "files example_world ''in/large.jpg'' = Some large_file"
  "files example_world ''in/missing.jpg'' = None"
  "trace example_world = []"
  "counters example_world = (7, 7, 7)"
  by (simp_all add: example_world_def counters_def)

lemma example_world_counts:
  "processed_count example_world = 7" "skipped_count example_world = 7"
  "error_count example_world = 7"
  by (simp_all add: example_world_def)

lemma cached_world_simps:
  "files cached_world ''in/a.jpg'' = Some photo_file"
  "files cached_world ''cache/in/a.jpg_1700000000.0_2048.txt''
     = Some (text_file example_lib ''Processed: in/a.jpg'')"
  "files example_world ''cache/in/a.jpg_1700000000.0_2048.txt'' = None"
  "trace cached_world = []"
  "processed_count cached_world = 7" "skipped_count cached_world = 7"
  "error_count cached_world = 7"
  by (simp_all add: cached_world_def example_world_def)

lemma example_valid_names:
  "is_valid_image_format default_config ''in/a.jpg''"
  "is_valid_image_format default_config ''in/b.png''"
  "is_valid_image_format default_config ''in/c.jpeg''"
  "is_valid_image_format default_config ''in/large.jpg''"
  "is_valid_image_format default_config ''in/missing.jpg''"
  "\<not> is_valid_image_format default_config ''in/notes.txt''"
  by (simp_all add: is_valid_image_format_def default_config_def Config_init_simps lower_def
        lower_char_def endswith_def)

lemma endswith_iff_suffix: "endswith s suf \<longleftrightarrow> (\<exists>pre. s = pre @ suf)"
proof
  assume "endswith s suf"
  then have "s = take (length s - length suf) s @ suf"
    by (metis append_take_drop_id endswith_def)
  then show "\<exists>pre. s = pre @ suf" ..
next
  assume "\<exists>pre. s = pre @ suf"
  then show "endswith s suf"
    by (auto simp: endswith_def)
qed

text \<open>What \<open>lower\<close> maps to the characters of the three extensions.\<close>

lemma lower_char_dot: "lower_char x = CHR ''.'' \<longleftrightarrow> x = CHR ''.''"
  by (auto simp add: lower_char_def split: if_splits)
lemma lower_char_j: "lower_char x = CHR ''j'' \<longleftrightarrow> x = CHR ''j'' \<or> x = CHR ''J''"
  by (auto simp add: lower_char_def split: if_splits)
lemma lower_char_p: "lower_char x = CHR ''p'' \<longleftrightarrow> x = CHR ''p'' \<or> x = CHR ''P''"
  by (auto simp add: lower_char_def split: if_splits)
lemma lower_char_g: "lower_char x = CHR ''g'' \<longleftrightarrow> x = CHR ''g'' \<or> x = CHR ''G''"
  by (auto simp add: lower_char_def split: if_splits)
lemma lower_char_e: "lower_char x = CHR ''e'' \<longleftrightarrow> x = CHR ''e'' \<or> x = CHR ''E''"
  by (auto simp add: lower_char_def split: if_splits)
lemma lower_char_n: "lower_char x = CHR ''n'' \<longleftrightarrow> x = CHR ''n'' \<or> x = CHR ''N''"
  by (auto simp add: lower_char_def split: if_splits)

lemmas lower_char_letters = lower_char_dot lower_char_j lower_char_p lower_char_g lower_char_e lower_char_n

lemma lower_suffix:
  "(\<exists>pre. lower s = pre @ suf) \<longleftrightarrow> (\<exists>pre t. s = pre @ t \<and> lower t = suf)"
  by (auto simp add: lower_def map_eq_append_conv)

lemma lower_jpg:
  "lower t = ''.jpg'' \<longleftrightarrow>
     (\<exists>a b c. t = [CHR ''.'', a, b, c] \<and> a \<in> {CHR ''j'', CHR ''J''}
        \<and> b \<in> {CHR ''p'', CHR ''P''} \<and> c \<in> {CHR ''g'', CHR ''G''})"
  by (auto simp add: lower_def map_eq_Cons_conv lower_char_letters)

lemma lower_jpeg:
  "lower t = ''.jpeg'' \<longleftrightarrow>
     (\<exists>a b c d. t = [CHR ''.'', a, b, c, d] \<and> a \<in> {CHR ''j'', CHR ''J''}
        \<and> b \<in> {CHR ''p'', CHR ''P''} \<and> c \<in> {CHR ''e'', CHR ''E''}
        \<and> d \<in> {CHR ''g'', CHR ''G''})"
  by (auto simp add: lower_def map_eq_Cons_conv lower_char_letters)

lemma lower_png:
  "lower t = ''.png'' \<longleftrightarrow>
     (\<exists>a b c. t = [CHR ''.'', a, b, c] \<and> a \<in> {CHR ''p'', CHR ''P''}
        \<and> b \<in> {CHR ''n'', CHR ''N''} \<and> c \<in> {CHR ''g'', CHR ''G''})"
  by (auto simp add: lower_def map_eq_Cons_conv lower_char_letters)

lemma round_divide_int:
  assumes "0 < b"
  shows "round (of_int a / of_int b :: rat) = (2 * a + b) div (2 * b)"
proof -
  have "(of_int a / of_int b :: rat) + 1 / 2 = of_int (2 * a + b) / of_int (2 * b)"
    using assms by (simp add: field_simps)
  then show ?thesis
    unfolding round_def by (simp only: floor_divide_of_int_eq)
qed

lemma spec_border_size_int:
  assumes "0 < width img"
  shows "spec_border_size cfg img =
           (min_width cfg, (2 * (min_width cfg * height img) + width img) div (2 * width img))"
  unfolding spec_border_size_def using assms by (simp only: round_divide_int)

lemma int_truediv_pos:
  assumes "0 \<le> a" "0 < b"
  shows "int_truediv a b = Some (a div b)"
proof (cases "a = 0")
  case True
  with assms show ?thesis by (simp add: int_truediv_def)
next
  case False
  with assms have "sgn a = 1" "sgn b = 1" "\<bar>a\<bar> = a" "\<bar>b\<bar> = b" by simp_all
  with assms show ?thesis by (simp add: int_truediv_def)
qed

subsection \<open>Doubles\<close>

lemma is_double_int: "\<bar>n\<bar> < 2 ^ 53 \<Longrightarrow> is_double (of_int n)"
  unfolding is_double_def by (rule exI [of _ n], rule exI [of _ 0]) simp

lemma is_double_grid:
  assumes "\<bar>m\<bar> < 2 ^ 53" "k \<le> 1074"
  shows "is_double (of_int m / 2 ^ k)"
  unfolding is_double_def using assms by blast

lemma round_close: "\<bar>(x::rat) - of_int (round x)\<bar> \<le> 1 / 2"
  using of_int_round_abs_le [of x] by (simp add: abs_minus_commute)

lemma grid_point:
  fixes q :: rat and k :: nat
  assumes "0 \<le> q"
  shows "0 \<le> round (q * 2 ^ k)" and "\<bar>q * 2 ^ k - of_int (round (q * 2 ^ k))\<bar> \<le> 1 / 2"
proof -
  have "0 \<le> q * 2 ^ k" using assms(1) by simp
  then have "round (0::rat) \<le> round (q * 2 ^ k)" by (rule round_mono)
  then show "0 \<le> round (q * 2 ^ k)" by simp
  show "\<bar>q * 2 ^ k - of_int (round (q * 2 ^ k))\<bar> \<le> 1 / 2"
    by (rule round_close)
qed

lemma closer_grid_point:
  fixes a b :: int and N :: nat
  assumes a: "0 \<le> a" "a < 2 ^ N" and b: "0 < b" and r: "0 < a mod b"
  shows "\<exists>(m::int) (k::nat). 0 \<le> m \<and> m < 2 ^ N \<and> k \<le> N
           \<and> \<bar>of_int a / of_int b - of_int m / 2 ^ k\<bar>
               < of_int (a div b) + 1 - (of_int a / of_int b :: rat)"
proof -
  define n r where "n = a div b" and "r = a mod b"
  define q :: rat where "q = of_int a / of_int b"
  have r_bd: "0 < r" "r < b"
    using r b by (simp_all add: r_def)
  have n0: "0 \<le> n"
    using a b by (simp add: n_def pos_imp_zdiv_nonneg_iff)
  have a_eq: "a = n * b + r"
    by (simp add: n_def r_def)
  have gap: "of_int n + 1 - q = of_int (b - r) / of_int b"
    using b by (simp add: q_def a_eq field_simps)
  have q0: "0 \<le> q"
    using a b by (simp add: q_def)
  have br1: "1 \<le> b - r" using r_bd by simp
  have "\<exists>k::nat. k \<le> N \<and> (n + 1) * 2 ^ k \<le> 2 ^ N \<and> b < 2 * 2 ^ k * (b - r)"
  proof (cases "n = 0")
    case True
    have "r < 2 ^ N" using a a_eq True by simp
    then have "b < (b - r) + 2 ^ N" by simp
    also have "\<dots> \<le> (b - r) + 2 ^ N * (b - r)" using br1 by simp
    also have "\<dots> < 2 * 2 ^ N * (b - r)"
    proof -
      have "(1::int) < 2 ^ N" using \<open>r < 2 ^ N\<close> r_bd by simp
      then have "1 * (b - r) < 2 ^ N * (b - r)"
        using br1 by (intro mult_strict_right_mono) simp_all
      then show ?thesis by (simp add: mult.commute)
    qed
    finally have "b < 2 * 2 ^ N * (b - r)" .
    with True show ?thesis by (intro exI [of _ N]) simp
  next
    case False
    with n0 have n1: "1 \<le> nat n" by simp
    from ex_power_ivl1 [of 2 "nat n"] n1
    obtain j where j: "2 ^ j \<le> nat n" "nat n < 2 ^ (j + 1)" by auto
    have jn: "(2::int) ^ j \<le> n" "n < 2 ^ (j + 1)"
    proof -
      from j(1) have "int (2 ^ j) \<le> int (nat n)" by (simp only: of_nat_le_iff)
      then show "(2::int) ^ j \<le> n" using n0 by simp
      from j(2) have "int (nat n) < int (2 ^ (j + 1))" by (simp only: of_nat_less_iff)
      then show "n < 2 ^ (j + 1)" using n0 by simp
    qed
    have nb: "n * b \<le> a" using a_eq r_bd by simp
    have "n \<le> n * b" using n0 b by (simp add: mult_le_cancel_left1)
    with nb a have nN: "n < 2 ^ N" by simp
    have jN: "j < N"
    proof (rule ccontr)
      assume "\<not> j < N"
      then have "N \<le> j" by simp
      then have "(2::int) ^ N \<le> 2 ^ j" by (rule power_increasing) simp
      with jn nN show False by simp
    qed
    define k where "k = N - (j + 1)"
    have kj: "(j + 1) + k = N" using jN by (simp add: k_def)
    have "(n + 1) * 2 ^ k \<le> 2 ^ (j + 1) * 2 ^ k"
      using jn by (intro mult_right_mono) simp_all
    also have "\<dots> = 2 ^ N"
      unfolding power_add [symmetric] kj ..
    finally have c1: "(n + 1) * 2 ^ k \<le> 2 ^ N" .
    have "2 ^ j * b \<le> n * b" using jn b by (intro mult_right_mono) simp_all
    with nb a have "2 ^ j * b < 2 ^ N" by simp
    also have "(2::int) ^ N = 2 ^ j * (2 * 2 ^ k)"
    proof -
      have "(2::int) ^ N = 2 ^ ((j + 1) + k)" by (simp only: kj)
      then show ?thesis by (simp add: power_add)
    qed
    finally have "b < 2 * 2 ^ k" by simp
    also have "\<dots> \<le> 2 * 2 ^ k * (b - r)" using br1 by simp
    finally have c2: "b < 2 * 2 ^ k * (b - r)" .
    have "k \<le> N" by (simp add: k_def)
    with c1 c2 show ?thesis by blast
  qed
  then obtain k :: nat where k: "k \<le> N" "(n + 1) * 2 ^ k \<le> 2 ^ N" "b < 2 * 2 ^ k * (b - r)"
    by blast
  define K :: rat where "K = 2 ^ k"
  have K0: "0 < K" by (simp add: K_def)
  define m where "m = round (q * 2 ^ k)"
  have m0: "0 \<le> m" and mc: "\<bar>q * K - of_int m\<bar> \<le> 1 / 2"
    using grid_point [OF q0, of k] by (simp_all add: m_def K_def)
  have half: "1 / (2 * K) < of_int (b - r) / of_int b"
  proof -
    have "(of_int b :: rat) < of_int (2 * 2 ^ k * (b - r))"
      using k(3) by (simp only: of_int_less_iff)
    then have "(of_int b :: rat) < 2 * K * of_int (b - r)"
      by (simp add: K_def)
    then show ?thesis
      using b K0 by (simp add: field_simps)
  qed
  have close: "\<bar>q - of_int m / K\<bar> \<le> 1 / (2 * K)"
  proof -
    have "q - of_int m / K = (q * K - of_int m) / K"
      using K0 by (simp add: field_simps)
    then have "\<bar>q - of_int m / K\<bar> = \<bar>q * K - of_int m\<bar> / K"
      using K0 by (simp add: abs_of_pos)
    also have "\<dots> \<le> (1 / 2) / K"
      using mc K0 by (intro divide_right_mono) simp_all
    finally show ?thesis by simp
  qed
  have "1 / (2 * K) < of_int n + 1 - q"
    using half by (simp only: gap)
  then have "1 / (2 * K) * K < (of_int n + 1 - q) * K"
    using K0 by (rule mult_strict_right_mono)
  then have "(of_int n + 1 - q) * K > 1 / 2"
    using K0 by simp
  moreover have "of_int m \<le> q * K + 1 / 2"
    using mc by linarith
  ultimately have "of_int m < (of_int n + 1) * K"
    by (simp add: algebra_simps)
  also have "\<dots> \<le> 2 ^ N"
  proof -
    have "(of_int ((n + 1) * 2 ^ k) :: rat) \<le> of_int (2 ^ N)"
      using k(2) by (simp only: of_int_le_iff)
    then show ?thesis by (simp add: K_def)
  qed
  finally have "(of_int m :: rat) < of_int (2 ^ N)" by simp
  then have mN: "m < 2 ^ N" by (simp only: of_int_less_iff)
  have "\<bar>q - of_int m / 2 ^ k\<bar> < of_int n + 1 - q"
    using close half gap by (simp add: K_def)
  with m0 mN k(1) show ?thesis
    unfolding q_def n_def by blast
qed


text \<open>
  Whatever double is nearest to the quotient of two ints, with the dividend below
  2^53, its integer part is that of the exact quotient.
\<close>

lemma nearest_double_floor:
  fixes a b :: int
  assumes a: "0 \<le> a" "a < 2 ^ 53" and b: "0 < b"
    and x: "nearest_double (of_int a / of_int b) x"
  shows "\<lfloor>x\<rfloor> = a div b"
proof -
  define n r where "n = a div b" and "r = a mod b"
  define q :: rat where "q = of_int a / of_int b"
  have r_bd: "0 \<le> r" "r < b"
    using b by (simp_all add: r_def)
  have n0: "0 \<le> n"
    using a b by (simp add: n_def pos_imp_zdiv_nonneg_iff)
  have a_eq: "a = n * b + r"
    by (simp add: n_def r_def)
  have qn: "q = of_int n + of_int r / of_int b"
    using b by (simp add: q_def a_eq field_simps)
  have lo: "of_int n \<le> q"
    using r_bd b by (simp add: qn)
  have hi: "q < of_int n + 1"
    using r_bd b by (simp add: qn)
  have near: "\<And>y. is_double y \<Longrightarrow> \<bar>q - x\<bar> \<le> \<bar>q - y\<bar>"
    using x by (simp add: nearest_double_def q_def)
  have "n \<le> n * b" using n0 b by (simp add: mult_le_cancel_left1)
  then have "n < 2 ^ 53" using a a_eq r_bd by linarith
  then have dn: "is_double (of_int n)"
    using n0 by (intro is_double_int) simp
  have xn: "of_int n \<le> x"
  proof (rule ccontr)
    assume "\<not> of_int n \<le> x"
    then have "\<bar>q - of_int n\<bar> < \<bar>q - x\<bar>" using lo by linarith
    with near [OF dn] show False by simp
  qed
  have "\<exists>y. is_double y \<and> \<bar>q - y\<bar> < of_int n + 1 - q"
  proof (cases "r = 0")
    case True
    then have "q = of_int n" by (simp add: qn)
    with dn show ?thesis by (intro exI [of _ "of_int n"]) simp
  next
    case False
    with r_bd have "0 < a mod b" by (simp add: r_def)
    from closer_grid_point [OF a b this]
    obtain m :: int and k :: nat where mk: "0 \<le> m" "m < 2 ^ 53" "k \<le> 53"
      "\<bar>of_int a / of_int b - of_int m / 2 ^ k\<bar>
         < of_int (a div b) + 1 - (of_int a / of_int b :: rat)"
      by blast
    then have "is_double (of_int m / 2 ^ k)"
      by (intro is_double_grid) simp_all
    with mk(4) show ?thesis
      unfolding q_def n_def by blast
  qed
  then obtain y where y: "is_double y" "\<bar>q - y\<bar> < of_int n + 1 - q"
    by blast
  have x1: "x < of_int n + 1"
  proof (rule ccontr)
    assume "\<not> x < of_int n + 1"
    then have "of_int n + 1 - q \<le> \<bar>q - x\<bar>" using hi by linarith
    with near [OF y(1)] y(2) show False by simp
  qed
  from xn x1 have "\<lfloor>x\<rfloor> = n" by (intro floor_unique) simp_all
  then show ?thesis by (simp add: n_def)
qed

lemma int_truediv_double:
  assumes "0 \<le> a" "a < 2 ^ 53" "0 < b" "nearest_double (of_int a / of_int b) x"
  shows "int_truediv a b = Some \<lfloor>x\<rfloor>"
  using assms by (simp add: nearest_double_floor int_truediv_pos)


lemma nearest_double_exact:
  assumes "is_double q"
  shows "nearest_double q x \<longleftrightarrow> x = q"
proof
  assume "nearest_double q x"
  then have "\<forall>y. is_double y \<longrightarrow> \<bar>q - x\<bar> \<le> \<bar>q - y\<bar>"
    by (simp add: nearest_double_def)
  with assms have "\<bar>q - x\<bar> \<le> \<bar>q - q\<bar>"
    by blast
  then show "x = q" by simp
next
  assume "x = q"
  with assms show "nearest_double q x" by (simp add: nearest_double_def)
qed

lemma size_mb_exact:
  assumes "sz < 2 ^ 53" and "nearest_double (of_nat sz / (1024 * 1024)) x"
  shows "x = of_nat sz / (1024 * 1024)"
proof -
  have "\<bar>int sz\<bar> < 2 ^ 53" using assms(1) by simp
  then have "is_double (of_int (int sz) / 2 ^ 20)"
    by (intro is_double_grid) simp_all
  then have "is_double (of_nat sz / (1024 * 1024))" by simp
  with assms(2) show ?thesis by (simp add: nearest_double_exact)
qed

lemma finite_doubles: "finite {x. is_double x}"
proof -
  have "{x. is_double x}
          \<subseteq> (\<lambda>(m, e). of_int m * 2 ^ e) ` ({- (2 ^ 53) <..< 2 ^ 53} \<times> {..(971::nat)})
            \<union> (\<lambda>(m, e). of_int m / 2 ^ e) ` ({- (2 ^ 53) <..< 2 ^ 53} \<times> {..(1074::nat)})"
    by (auto simp add: is_double_def abs_less_iff image_iff)
  then show ?thesis
    by (rule finite_subset) simp
qed

lemma nearest_double_exists: "\<exists>x. nearest_double q x"
proof -
  have "is_double 0"
    using is_double_int [of 0] by simp
  then have ne: "{x. is_double x} \<noteq> {}" by blast
  from ex_is_arg_min_if_finite [OF finite_doubles ne, of "\<lambda>x. \<bar>q - x\<bar>"]
  obtain x where "is_arg_min (\<lambda>x. \<bar>q - x\<bar>) (\<lambda>x. x \<in> {x. is_double x}) x"
    by blast
  then have "is_double x" and "\<And>y. is_double y \<Longrightarrow> \<not> \<bar>q - y\<bar> < \<bar>q - x\<bar>"
    by (auto simp add: is_arg_min_def)
  then have "nearest_double q x"
    by (auto simp add: nearest_double_def not_less)
  then show ?thesis ..
qed

subsection \<open>Formatting\<close>

text \<open>
  \<open>str_nat\<close> writes the decimal digits of its argument, and \<open>format_1f\<close> prints the
  tenth nearest to the quotient.
\<close>

lemma digit_char_value: "d < 10 \<Longrightarrow> (of_char (digit_char d) :: nat) - 48 = d"
proof -
  assume "d < 10"
  then have "d \<in> {0, 1, 2, 3, 4, 5, 6, 7, 8, 9}"
    by auto
  then show ?thesis
    by (auto simp add: digit_char_def)
qed

lemma digit_char_digit: "digit_char d \<in> set ''0123456789''"
proof -
  have "d mod 10 < length ''0123456789''" by simp
  then show ?thesis
    unfolding digit_char_def by (rule nth_mem)
qed

lemma digits_value_snoc: "digits_value (ds @ [c]) = 10 * digits_value ds + (of_char c - 48)"
  by (simp add: digits_value_def)

lemma str_nat_value: "digits_value (str_nat n) = n"
proof (induction n rule: str_nat.induct)
  case (1 n)
  show ?case
  proof (cases "n < 10")
    case True
    then show ?thesis
      by (subst str_nat.simps) (simp add: digits_value_def digit_char_value)
  next
    case False
    with 1 have "digits_value (str_nat (n div 10)) = n div 10" by simp
    with False show ?thesis
      by (subst str_nat.simps) (simp add: digits_value_snoc digit_char_value)
  qed
qed

lemma str_nat_digits: "set (str_nat n) \<subseteq> set ''0123456789''"
proof (induction n rule: str_nat.induct)
  case (1 n)
  show ?case
  proof (cases "n < 10")
    case True
    then show ?thesis
      using digit_char_digit [of n] by (subst str_nat.simps) simp
  next
    case False
    with 1 have "set (str_nat (n div 10)) \<subseteq> set ''0123456789''" by simp
    with False show ?thesis
      using digit_char_digit [of "n mod 10"] by (subst str_nat.simps) simp
  qed
qed

lemma round_half_even_nearest:
  assumes "0 < d"
  shows "2 * \<bar>int (round_half_even n d) * int d - int n\<bar> \<le> int d"
proof -
  define fl r where "fl = n div d" and "r = n mod d"
  have n: "int n = int fl * int d + int r"
    unfolding fl_def r_def by (metis div_mult_mod_eq of_nat_add of_nat_mult)
  have r: "r < d"
    unfolding r_def using assms by simp
  show ?thesis
  proof (cases "2 * r > d \<or> (2 * r = d \<and> odd fl)")
    case True
    then have "round_half_even n d = fl + 1"
      by (simp add: round_half_even_def fl_def r_def Let_def)
    then have "int (round_half_even n d) * int d - int n = int d - int r"
      by (simp add: n algebra_simps)
    with True r show ?thesis by auto
  next
    case False
    then have "round_half_even n d = fl"
      by (simp add: round_half_even_def fl_def r_def Let_def)
    then have "int (round_half_even n d) * int d - int n = - int r"
      by (simp add: n)
    with False show ?thesis by auto
  qed
qed

lemma format_1f_value:
  "\<exists>ds c. format_1f n d = ds @ ''.'' @ [c]
      \<and> set ds \<subseteq> set ''0123456789'' \<and> c \<in> set ''0123456789''
      \<and> 10 * digits_value ds + digits_value [c] = round_half_even (10 * n) d"
proof -
  define t where "t = round_half_even (10 * n) d"
  have "format_1f n d = str_nat (t div 10) @ ''.'' @ [digit_char (t mod 10)]"
    by (simp add: format_1f_def t_def Let_def)
  moreover have "set (str_nat (t div 10)) \<subseteq> set ''0123456789''"
    by (rule str_nat_digits)
  moreover have "digit_char (t mod 10) \<in> set ''0123456789''"
    by (rule digit_char_digit)
  moreover have "digits_value [digit_char (t mod 10)] = t mod 10"
    by (simp add: digits_value_def digit_char_value)
  then have "10 * digits_value (str_nat (t div 10)) + digits_value [digit_char (t mod 10)] = t"
    by (simp add: str_nat_value)
  ultimately show ?thesis
    unfolding t_def by blast
qed

text \<open>What encodes: the decimal digits of an int do, and the key string of a path
  does when the path and the rendered modification time do.\<close>

lemma str_encodable_simps [simp]:
  "str_encodable []"
  "str_encodable (c # cs) \<longleftrightarrow> is_ascii c \<and> str_encodable cs"
  "str_encodable (a @ b) \<longleftrightarrow> str_encodable a \<and> str_encodable b"
  by (simp_all add: str_encodable_def)

lemma str_encodable_str_int [simp]: "str_encodable (str_int n)"
proof -
  have d: "\<And>c. c \<in> set ''0123456789'' \<Longrightarrow> is_ascii c"
    by (auto simp add: is_ascii_def)
  have "\<And>m. str_encodable (str_nat m)"
    using str_nat_digits d by (auto simp add: str_encodable_def list_all_iff)
  then show ?thesis
    by (simp add: str_int_def is_ascii_def)
qed

lemma str_encodable_key:
  "str_encodable (p @ ''_'' @ str_float L r @ ''_'' @ str_int n)
     \<longleftrightarrow> str_encodable p \<and> str_encodable (str_float L r)"
  by (simp add: is_ascii_def)

lemma str_encodable_marker_text:
  "str_encodable (''Processed: '' @ p @ [CHR 0x0A] @ ''Timestamp: '' @ str_float L r)
     \<longleftrightarrow> str_encodable p \<and> str_encodable (str_float L r)"
  by (simp add: is_ascii_def)

lemma paste_size [simp]:
  "width (paste dst src off) = width dst" "height (paste dst src off) = height dst"
  "mode (paste dst src off) = mode dst"
  by (simp_all add: paste_def)

lemma paste_inside:
  assumes "fst off \<le> x" "x < fst off + width src" "snd off \<le> y" "y < snd off + height src"
  shows "pixel (paste dst src off) x y = pixel src (x - fst off) (y - snd off)"
  using assms by (simp add: paste_def)

text \<open>
  What the border transform returns on an image with positive sides that is narrower
  than the minimum width: the resized image pasted over the whole of a canvas of its
  own size.
\<close>

lemma add_dark_borders_narrow:
  assumes "0 < width img" "width img < min_width cfg" "0 < height img"
  defines "nh \<equiv> (min_width cfg * height img) div width img"
  assumes al: "can_allocate L (min_width cfg, nh)"
  shows "add_dark_borders L cfg img =
           Inr (paste (filled ''RGB'' (min_width cfg, nh) (0, 0, 0))
                      \<lparr> width = min_width cfg, height = nh, mode = mode img,
                        pixel = lanczos L img (min_width cfg, nh) \<rparr> (0, 0))"
    and "1 \<le> nh"
proof -
  have mh: "0 \<le> min_width cfg * height img"
    using assms(1-3) by simp
  have "width img * 1 \<le> min_width cfg * height img"
    using assms(1-3) by (intro mult_mono) simp_all
  then have "width img \<le> min_width cfg * height img" by simp
  then have "width img div width img \<le> nh"
    unfolding nh_def by (rule zdiv_mono1) (use assms(1) in simp)
  then show nh1: "1 \<le> nh"
    using assms(1) by simp
  have td: "int_truediv (min_width cfg * height img) (width img) = Some nh"
    unfolding nh_def using mh assms(1) by (rule int_truediv_pos)
  have rs: "Image_resize L img (min_width cfg, nh) =
              Inr \<lparr> width = min_width cfg, height = nh, mode = mode img,
                    pixel = lanczos L img (min_width cfg, nh) \<rparr>"
    using nh1 assms(1,2) al by (simp add: Image_resize_def can_allocate_def)
  have nw: "Image_new L ''RGB'' (min_width cfg, nh) (0, 0, 0) =
              Inr (filled ''RGB'' (min_width cfg, nh) (0, 0, 0))"
    using nh1 assms(1,2) al by (simp add: Image_new_def can_allocate_def)
  show "add_dark_borders L cfg img =
           Inr (paste (filled ''RGB'' (min_width cfg, nh) (0, 0, 0))
                      \<lparr> width = min_width cfg, height = nh, mode = mode img,
                        pixel = lanczos L img (min_width cfg, nh) \<rparr> (0, 0))"
    using assms(2) by (simp add: add_dark_borders_def Let_def td rs nw)
qed

text \<open>
  On such an image whose new size PIL cannot allocate, the transform raises.
\<close>

lemma add_dark_borders_too_large:
  assumes "0 < width img" "width img < min_width cfg" "0 < height img"
    and "\<not> can_allocate L (min_width cfg, (min_width cfg * height img) div width img)"
  shows "isl (add_dark_borders L cfg img)"
proof -
  have mh: "0 \<le> min_width cfg * height img"
    using assms(1-3) by simp
  have td: "int_truediv (min_width cfg * height img) (width img)
              = Some ((min_width cfg * height img) div width img)"
    using mh assms(1) by (rule int_truediv_pos)
  show ?thesis
    using assms(2,4)
    by (simp add: add_dark_borders_def Let_def td Image_resize_def Image_new_def
        can_allocate_def)
qed

subsection \<open>The effects of each operation\<close>

lemma counters_traced [simp]: "counters (traced ev s) = counters s"
  by (simp add: counters_def)

lemma is_cached_unfold:
  "is_cached L cfg s p =
     (if \<not> enable_caching cfg then Returns False s
      else
        (case files s p of
           None \<Rightarrow> Raises (FileNotFoundError p) (traced (EvStat p) s)
         | Some f \<Rightarrow>
             let k = p @ ''_'' @ str_float L (st_mtime f) @ ''_'' @ str_int (int (st_size f));
                 m = path_join L (cache_dir cfg) (md5_hexdigest L k @ ''.txt'')
             in if str_encodable k
                then Returns (files s m \<noteq> None) (traced (EvExists m) (traced (EvStat p) s))
                else Raises (UnicodeEncodeError k) (traced (EvStat p) s)))"
  by (simp add: is_cached_def get_cache_key_def os_stat_def os_path_exists_def Let_def
      split: option.splits)

lemma is_cached_frame:
  "counters (final (is_cached L cfg s p)) = counters s"
  "files (final (is_cached L cfg s p)) = files s"
  "denied (final (is_cached L cfg s p)) = denied s"
  "tree (final (is_cached L cfg s p)) = tree s"
  by (simp_all add: is_cached_unfold final_def Let_def split: option.splits)

lemma validate_image_unfold:
  "validate_image L cfg s p =
     (if \<not> is_valid_image_format cfg p
      then ((False, ''Invalid image extension. Supported formats are ''
                     @ join '', '' (supported_formats cfg), False), s)
      else
        (case files s p of
           None \<Rightarrow> ((False, ''File does not exist'', False), traced (EvExists p) s)
         | Some f \<Rightarrow>
             if int (st_size f) > max_file_size_mb cfg * (1024 * 1024)
             then ((False, ''File too large ('' @ format_1f (st_size f) (1024 * 1024)
                            @ ''MB). Maximum allowed: '' @ str_int (max_file_size_mb cfg)
                            @ ''MB'', False),
                   traced (EvGetsize p) (traced (EvExists p) s))
             else
               (case pil_open f of
                  Inl e \<Rightarrow>
                    ((False, ''Error validating image: '' @ e, False),
                     traced (EvImageOpen p) (traced (EvGetsize p) (traced (EvExists p) s)))
                | Inr img \<Rightarrow>
                    (case pil_verify f of
                       Some e \<Rightarrow>
                         ((False, ''Error validating image: '' @ e, False),
                          traced (EvImageVerify p) (traced (EvImageOpen p)
                            (traced (EvGetsize p) (traced (EvExists p) s))))
                     | None \<Rightarrow>
                         ((True, [], width img < min_width cfg),
                          traced (EvImageVerify p) (traced (EvImageOpen p)
                            (traced (EvGetsize p) (traced (EvExists p) s))))))))"
  by (cases "files s p")
    (simp_all add: validate_image_def os_path_exists_def os_path_getsize_def Image_open_def
      Let_def split: sum.splits option.splits)

lemma validate_image_frame:
  "counters (snd (validate_image L cfg s p)) = counters s"
  "files (snd (validate_image L cfg s p)) = files s"
  "denied (snd (validate_image L cfg s p)) = denied s"
  "tree (snd (validate_image L cfg s p)) = tree s"
  by (simp_all add: validate_image_unfold split: option.splits sum.splits)

lemma validate_image_not_missing:
  assumes "files s p \<noteq> None"
  shows "fst (validate_image L cfg s p) \<noteq> (False, ''File does not exist'', False)"
  using assms
  by (auto simp add: validate_image_unfold split: option.splits sum.splits)

lemma snd_save_case:
  "snd (case X of (Some e, s2) \<Rightarrow> (False, s2) | (None, s2) \<Rightarrow> (True, s2)) = snd X"
  by (auto split: prod.split option.split)

lemma Image_save_state:
  "snd (Image_save L s img p q) = traced (EvImageSave p) s
   \<or> (\<exists>f. snd (Image_save L s img p q) = traced (EvImageSave p) (s\<lparr>files := (files s)(p \<mapsto> f)\<rparr>))"
  by (auto simp add: Image_save_def split: sum.split)

lemma process_image_snd:
  "snd (process_image L cfg s i out b) = traced (EvImageOpen i) s
   \<or> (\<exists>img3. snd (process_image L cfg s i out b) =
          snd (Image_save L (traced (EvImageOpen i) s) img3 out (quality cfg)))"
  unfolding process_image_def Image_open_def
  by (auto simp add: snd_save_case split: option.split sum.split split del: if_split)

lemma process_image_frame:
  "counters (snd (process_image L cfg s i out b)) = counters s"
  "denied (snd (process_image L cfg s i out b)) = denied s"
  "tree (snd (process_image L cfg s i out b)) = tree s"
  "files s q \<noteq> None \<Longrightarrow> files (snd (process_image L cfg s i out b)) q \<noteq> None"
proof -
  consider "snd (process_image L cfg s i out b) = traced (EvImageOpen i) s"
    | "snd (process_image L cfg s i out b)
         = traced (EvImageSave out) (traced (EvImageOpen i) s)"
    | f where "snd (process_image L cfg s i out b)
         = traced (EvImageSave out) ((traced (EvImageOpen i) s)\<lparr>files := (files s)(out \<mapsto> f)\<rparr>)"
    using process_image_snd [of L cfg s i out b]
      Image_save_state [of L "traced (EvImageOpen i) s" _ out "quality cfg"]
    by (metis traced_simps(1))
  note c = this
  show "counters (snd (process_image L cfg s i out b)) = counters s"
    by (rule c) (simp_all add: counters_def)
  show "denied (snd (process_image L cfg s i out b)) = denied s"
    by (rule c) simp_all
  show "tree (snd (process_image L cfg s i out b)) = tree s"
    by (rule c) simp_all
  show "files s q \<noteq> None \<Longrightarrow> files (snd (process_image L cfg s i out b)) q \<noteq> None"
    by (rule c) simp_all
qed

lemma mark_as_cached_unfold:
  "mark_as_cached L cfg s p =
     (if \<not> enable_caching cfg then Returns () s
      else
        (case files s p of
           None \<Rightarrow> Raises (FileNotFoundError p) (traced (EvStat p) s)
         | Some f \<Rightarrow>
             let k = p @ ''_'' @ str_float L (st_mtime f) @ ''_'' @ str_int (int (st_size f));
                 m = path_join L (cache_dir cfg) (md5_hexdigest L k @ ''.txt'');
                 s2 = traced (EvMakedirs (cache_dir cfg)) (traced (EvStat p) s);
                 txt = ''Processed: '' @ p @ [CHR 0x0A] @ ''Timestamp: ''
                       @ str_float L (clock s)
             in if \<not> str_encodable k then Raises (UnicodeEncodeError k) (traced (EvStat p) s)
                else if denied s (cache_dir cfg) then Raises (OSError (cache_dir cfg)) s2
                else if denied s m then Raises (OSError m) (traced (EvWriteText m) s2)
                else if \<not> str_encodable txt
                then Raises (UnicodeEncodeError txt)
                       (traced (EvWriteText m) (s2\<lparr>files := (files s)(m \<mapsto> text_file L [])\<rparr>))
                else Returns ()
                       (traced (EvWriteText m)
                          (s2\<lparr>files := (files s)(m \<mapsto> text_file L txt)\<rparr>))))"
  by (simp add: mark_as_cached_def get_cache_key_def os_stat_def os_makedirs_def write_text_def
      Let_def split: option.split)

lemma mark_as_cached_frame:
  "counters (final (mark_as_cached L cfg s p)) = counters s"
  "denied (final (mark_as_cached L cfg s p)) = denied s"
  "tree (final (mark_as_cached L cfg s p)) = tree s"
  "files s q \<noteq> None \<Longrightarrow> files (final (mark_as_cached L cfg s p)) q \<noteq> None"
  by (simp_all add: mark_as_cached_unfold final_def Let_def counters_def split: option.split)

lemma same_world_refl: "same_world s s"
  by (simp add: same_world_def)

lemma same_world_trans: "same_world s s1 \<Longrightarrow> same_world s1 s2 \<Longrightarrow> same_world s s2"
  by (simp add: same_world_def)

lemma process_single_image_shape:
  "\<exists>s0. same_world s s0 \<and>
     ((\<exists>e. process_single_image L cfg s p = Raises e s0
           \<and> enable_caching cfg
           \<and> (files s p = None \<or> \<not> str_encodable p \<or> \<not> ascii_floats L
              \<or> \<not> cache_writable L cfg s))
      \<or> process_single_image L cfg s p = Returns True (s0\<lparr>skipped_count := skipped_count s0 + 1\<rparr>)
      \<or> process_single_image L cfg s p = Returns False (s0\<lparr>error_count := error_count s0 + 1\<rparr>)
      \<or> process_single_image L cfg s p
           = Returns True (s0\<lparr>processed_count := processed_count s0 + 1\<rparr>))"
proof (cases "is_cached L cfg s p")
  case (Raises e s1)
  have "same_world s s1"
    using is_cached_frame [where L = L and cfg = cfg and s = s and p = p] Raises
    by (simp add: same_world_def final_def)
  moreover have "process_single_image L cfg s p = Raises e s1"
    using Raises by (simp add: process_single_image_def)
  moreover have "enable_caching cfg
                 \<and> (files s p = None \<or> \<not> str_encodable p \<or> \<not> ascii_floats L)"
    using Raises
    by (auto simp add: is_cached_unfold Let_def str_encodable_key ascii_floats_def is_ascii_def
        split: if_splits option.splits)
  ultimately show ?thesis by blast
next
  case (Returns c s1)
  have w1: "same_world s s1"
    using is_cached_frame [where L = L and cfg = cfg and s = s and p = p] Returns
    by (simp add: same_world_def final_def)
  show ?thesis
  proof (cases c)
    case True
    then have "process_single_image L cfg s p
                 = Returns True (s1\<lparr>skipped_count := skipped_count s1 + 1\<rparr>)"
      using Returns by (simp add: process_single_image_def)
    with w1 show ?thesis by blast
  next
    case False
    obtain ok msg nb s2 where v: "validate_image L cfg s1 p = ((ok, msg, nb), s2)"
      by (metis prod.exhaust)
    have w2: "same_world s s2"
      using validate_image_frame [where L = L and cfg = cfg and s = s1 and p = p] v w1
      by (simp add: same_world_def)
    show ?thesis
    proof (cases ok)
      case f: False
      then have "process_single_image L cfg s p
                   = Returns False (s2\<lparr>error_count := error_count s2 + 1\<rparr>)"
        using Returns False v by (simp add: process_single_image_def)
      with w2 show ?thesis by blast
    next
      case t: True
      define outp where "outp = path_join L (output_dir cfg)
          (fst (path_splitext L (path_basename L p))
           @ (if nb then ''_processed_with_borders'' else ''_processed'') @ ''.jpg'')"
      obtain ok3 s3 where pi: "process_image L cfg s2 p outp nb = (ok3, s3)"
        by (metis prod.exhaust)
      have w3: "same_world s s3"
        using process_image_frame [where L = L and cfg = cfg and s = s2 and i = p
            and out = outp and b = nb] pi w2
        by (simp add: same_world_def)
      have r: "process_single_image L cfg s p =
                 (if ok3 then (case mark_as_cached L cfg s3 p of
                                 Raises e s4 \<Rightarrow> Raises e s4
                               | Returns u s4 \<Rightarrow>
                                   Returns True (s4\<lparr>processed_count := processed_count s4 + 1\<rparr>))
                  else Returns False (s3\<lparr>error_count := error_count s3 + 1\<rparr>))"
        using Returns False v t pi
        by (simp add: process_single_image_def Let_def outp_def)
      show ?thesis
      proof (cases ok3)
        case False
        with r w3 show ?thesis by auto
      next
        case True
        show ?thesis
        proof (cases "mark_as_cached L cfg s3 p")
          case (Raises e s4)
          have "same_world s s4"
            using mark_as_cached_frame [where L = L and cfg = cfg and s = s3 and p = p]
              Raises w3
            by (simp add: same_world_def final_def)
          moreover have "process_single_image L cfg s p = Raises e s4"
            using r True Raises by simp
          moreover have "enable_caching cfg
                         \<and> (files s3 p = None \<or> \<not> str_encodable p \<or> \<not> ascii_floats L
                            \<or> \<not> cache_writable L cfg s3)"
            using Raises
            by (auto simp add: mark_as_cached_unfold Let_def str_encodable_key
                str_encodable_marker_text ascii_floats_def cache_writable_def is_ascii_def
                split: if_splits option.splits)
          then have "enable_caching cfg
                     \<and> (files s p = None \<or> \<not> str_encodable p \<or> \<not> ascii_floats L
                        \<or> \<not> cache_writable L cfg s)"
            using w3 by (auto simp add: same_world_def cache_writable_def)
          ultimately show ?thesis by blast
        next
          case (Returns u s4)
          have "same_world s s4"
            using mark_as_cached_frame [where L = L and cfg = cfg and s = s3 and p = p]
              Returns w3
            by (simp add: same_world_def final_def)
          moreover have "process_single_image L cfg s p
                           = Returns True (s4\<lparr>processed_count := processed_count s4 + 1\<rparr>)"
            using r True Returns by simp
          ultimately show ?thesis by blast
        qed
      qed
    qed
  qed
qed

lemma process_single_image_returns:
  assumes "process_single_image L cfg s p = Returns b s'"
  shows "same_world s (s'\<lparr>processed_count := processed_count s, skipped_count := skipped_count s,
                          error_count := error_count s\<rparr>)"
    and "counters s' = (processed_count s + 1, skipped_count s, error_count s)
         \<or> counters s' = (processed_count s, skipped_count s + 1, error_count s)
         \<or> counters s' = (processed_count s, skipped_count s, error_count s + 1)"
proof -
  obtain s0 where w: "same_world s s0"
    and r: "s' = s0\<lparr>skipped_count := skipped_count s0 + 1\<rparr>
            \<or> s' = s0\<lparr>error_count := error_count s0 + 1\<rparr>
            \<or> s' = s0\<lparr>processed_count := processed_count s0 + 1\<rparr>"
    using process_single_image_shape [of s L cfg p] assms by auto
  from r w show "same_world s (s'\<lparr>processed_count := processed_count s,
      skipped_count := skipped_count s, error_count := error_count s\<rparr>)"
    by (auto simp add: same_world_def counters_def)
  from r w show "counters s' = (processed_count s + 1, skipped_count s, error_count s)
         \<or> counters s' = (processed_count s, skipped_count s + 1, error_count s)
         \<or> counters s' = (processed_count s, skipped_count s, error_count s + 1)"
    by (auto simp add: same_world_def counters_def)
qed

lemma process_single_image_raises:
  assumes "process_single_image L cfg s p = Raises e s'"
  shows "same_world s s'"
  using process_single_image_shape [of s L cfg p] assms by auto

lemma process_single_image_total:
  assumes "\<not> enable_caching cfg
           \<or> (files s p \<noteq> None \<and> str_encodable p \<and> ascii_floats L \<and> cache_writable L cfg s)"
  shows "\<exists>b s'. process_single_image L cfg s p = Returns b s'"
  using process_single_image_shape [of s L cfg p] assms by auto

lemma process_each_returns:
  assumes "process_each L cfg ps s = Returns u s'"
  shows "processed_count s' + skipped_count s' + error_count s'
           = processed_count s + skipped_count s + error_count s + int (length ps)"
  using assms
proof (induction ps arbitrary: s)
  case Nil
  then show ?case by simp
next
  case (Cons p ps)
  then obtain b s1 where 1: "process_single_image L cfg s p = Returns b s1"
    and 2: "process_each L cfg ps s1 = Returns u s'"
    by (auto split: outcome.splits)
  from process_single_image_returns(2) [OF 1]
  have "processed_count s1 + skipped_count s1 + error_count s1
          = processed_count s + skipped_count s + error_count s + 1"
    by (auto simp add: counters_def)
  with Cons.IH [OF 2] show ?case by simp
qed

lemma process_each_total:
  assumes "\<not> enable_caching cfg
           \<or> ((\<forall>p \<in> set ps. files s p \<noteq> None \<and> str_encodable p)
              \<and> ascii_floats L \<and> cache_writable L cfg s)"
  shows "\<exists>s'. process_each L cfg ps s = Returns () s'"
  using assms
proof (induction ps arbitrary: s)
  case Nil
  then show ?case by simp
next
  case (Cons p ps)
  then have "\<not> enable_caching cfg
             \<or> (files s p \<noteq> None \<and> str_encodable p \<and> ascii_floats L \<and> cache_writable L cfg s)"
    by auto
  from process_single_image_total [OF this]
  obtain b s1 where 1: "process_single_image L cfg s p = Returns b s1" by blast
  from process_single_image_returns(1) [OF 1]
  have "denied s1 = denied s" "\<And>q. files s q \<noteq> None \<Longrightarrow> files s1 q \<noteq> None"
    by (simp_all add: same_world_def)
  with Cons.prems
  have "\<not> enable_caching cfg
        \<or> ((\<forall>p \<in> set ps. files s1 p \<noteq> None \<and> str_encodable p)
           \<and> ascii_floats L \<and> cache_writable L cfg s1)"
    by (auto simp add: cache_writable_def)
  from Cons.IH [OF this] 1 show ?case by simp
qed

text \<open>The loop stops at the first call that raises, with that exception.\<close>

lemma process_each_raises:
  assumes "process_each L cfg ps s = Returns u s1"
    and "process_single_image L cfg s1 p = Raises e s2"
  shows "process_each L cfg (ps @ p # qs) s = Raises e s2"
  using assms
proof (induction ps arbitrary: s)
  case Nil
  then show ?case by simp
next
  case (Cons a ps)
  then obtain b sa where 1: "process_single_image L cfg s a = Returns b sa"
    and 2: "process_each L cfg ps sa = Returns u s1"
    by (auto split: outcome.splits)
  from Cons.IH [OF 2 Cons.prems(2)] 1 show ?case by simp
qed

lemma collect_files_eq:
  "collect_files L cfg r fs acc
     = acc @ map (path_join L r) (filter (is_valid_image_format cfg) fs)"
  by (induction fs arbitrary: acc) simp_all

lemma collect_walk_eq:
  "collect_walk L cfg ts acc
     = acc @ concat (map (\<lambda>(r, ds, fs). map (path_join L r)
                                           (filter (is_valid_image_format cfg) fs)) ts)"
  by (induction ts arbitrary: acc) (auto simp add: collect_files_eq)

lemma length_collect_walk:
  "length (collect_walk L cfg ts [])
     = length (filter (is_valid_image_format cfg) (concat (map (\<lambda>(r, ds, fs). fs) ts)))"
  by (induction ts) (auto simp add: collect_walk_eq)

lemma process_directory_reset:
  "process_directory L cfg (s\<lparr>processed_count := a, skipped_count := b, error_count := c\<rparr>) d
     = process_directory L cfg s d"
  by (simp add: process_directory_def)

lemma process_directory_returns:
  assumes "returned (process_directory L cfg s d) = Some stats"
  defines "s' \<equiv> final (process_directory L cfg s d)"
  shows "stats = [(''processed'', processed_count s'), (''skipped'', skipped_count s'),
                  (''errors'', error_count s'),
                  (''total'', int (length (collect_walk L cfg (tree s d) [])))]"
    and "int (length (collect_walk L cfg (tree s d) []))
           = processed_count s' + skipped_count s' + error_count s'"
proof -
  define s0 where "s0 = s\<lparr>processed_count := 0, skipped_count := 0, error_count := 0\<rparr>"
  define s2 where "s2 = traced (EvWalk d) (traced (EvMakedirs (output_dir cfg)) s0)"
  define fs where "fs = collect_walk L cfg (tree s d) []"
  from assms(1) have nd: "\<not> denied s (output_dir cfg)"
    by (auto simp add: process_directory_def os_makedirs_def returned_def Let_def
        split: if_splits)
  then have pd: "process_directory L cfg s d =
      (case process_each L cfg fs s2 of
         Raises e s3 \<Rightarrow> Raises e s3
       | Returns u s3 \<Rightarrow>
           Returns [(''processed'', processed_count s3), (''skipped'', skipped_count s3),
                    (''errors'', error_count s3), (''total'', int (length fs))] s3)"
    by (simp add: process_directory_def os_makedirs_def Let_def s0_def s2_def fs_def
        cong: outcome.case_cong)
  with assms(1) obtain u s3 where pe: "process_each L cfg fs s2 = Returns u s3"
    by (auto simp add: returned_def split: outcome.splits)
  have s3: "s' = s3"
    by (simp add: s'_def pd pe final_def)
  from pd pe assms(1) show "stats = [(''processed'', processed_count s'),
      (''skipped'', skipped_count s'), (''errors'', error_count s'),
      (''total'', int (length (collect_walk L cfg (tree s d) [])))]"
    by (simp add: returned_def s3 fs_def)
  from process_each_returns [OF pe]
  show "int (length (collect_walk L cfg (tree s d) []))
           = processed_count s' + skipped_count s' + error_count s'"
    by (simp add: s3 s2_def s0_def fs_def)
qed

lemma process_directory_total:
  assumes "\<not> denied s (output_dir cfg)"
    and "\<not> enable_caching cfg
         \<or> ((\<forall>p \<in> set (collect_walk L cfg (tree s d) []). files s p \<noteq> None \<and> str_encodable p)
            \<and> ascii_floats L \<and> cache_writable L cfg s)"
  shows "returned (process_directory L cfg s d) \<noteq> None"
proof -
  define s2 where "s2 = traced (EvWalk d) (traced (EvMakedirs (output_dir cfg))
      (s\<lparr>processed_count := 0, skipped_count := 0, error_count := 0\<rparr>))"
  have "\<not> enable_caching cfg
         \<or> ((\<forall>p \<in> set (collect_walk L cfg (tree s d) []). files s2 p \<noteq> None \<and> str_encodable p)
            \<and> ascii_floats L \<and> cache_writable L cfg s2)"
    using assms(2) by (simp add: s2_def cache_writable_def)
  from process_each_total [OF this]
  obtain s3 where "process_each L cfg (collect_walk L cfg (tree s d) []) s2 = Returns () s3"
    by blast
  with assms(1) show ?thesis
    by (simp add: process_directory_def os_makedirs_def Let_def s2_def returned_def)
qed

lemma process_directory_raises:
  assumes "\<not> denied s (output_dir cfg)"
    and "collect_walk L cfg (tree s d) [] = ps @ p # qs"
    and "process_each L cfg ps
           (traced (EvWalk d) (traced (EvMakedirs (output_dir cfg))
              (s\<lparr>processed_count := 0, skipped_count := 0, error_count := 0\<rparr>)))
         = Returns u s1"
    and "process_single_image L cfg s1 p = Raises e s2"
  shows "process_directory L cfg s d = Raises e s2"
proof -
  from process_each_raises [OF assms(3,4), of qs]
  show ?thesis
    using assms(1,2) by (simp add: process_directory_def os_makedirs_def Let_def)
qed

lemma outcome_returned: "returned X = Some r \<Longrightarrow> X = Returns r (final X)"
  by (cases X) (simp_all add: returned_def final_def)

lemma outcome_raised: "raised X = Some e \<Longrightarrow> X = Raises e (final X)"
  by (cases X) (simp_all add: raised_def final_def)

lemma default_config_simps:
  "min_width default_config = 600" "quality default_config = 85"
  "supported_formats default_config = [''.jpg'', ''.jpeg'', ''.png'']"
  "max_file_size_mb default_config = 10" "enable_caching default_config = True"
  "cache_dir default_config = ''cache''"
  by (simp_all add: default_config_def Config_init_simps)

lemma example_lib_simps:
  "md5_hexdigest example_lib = (\<lambda>s. s)"
  "str_float example_lib = (\<lambda>r. str_int (floor r) @ ''.0'')"
  "path_join example_lib = (\<lambda>a b. a @ ''/'' @ b)"
  "path_basename example_lib = basename_posix"
  "path_splitext example_lib = splitext_posix"
  "lanczos example_lib = nearest"
  "exif_transpose example_lib = Inr"
  by (simp_all add: example_lib_def)

lemma nocache_config_simps:
  "min_width nocache_config = 600" "quality nocache_config = 85"
  "supported_formats nocache_config = [''.jpg'', ''.jpeg'', ''.png'']"
  "max_file_size_mb nocache_config = 10" "enable_caching nocache_config = False"
  "cache_dir nocache_config = ''cache''"
  by (simp_all add: nocache_config_def Config_init_simps)

lemmas eval_defs =
  process_directory_def os_makedirs_def process_single_image_def
  is_cached_unfold validate_image_unfold mark_as_cached_unfold process_image_def
  Image_open_def Image_save_def add_dark_borders_def Image_resize_def int_truediv_def
  Image_new_def c_int_def is_ascii_def filled_def white_image_def paste_def
  default_config_simps nocache_config_simps example_lib_def example_world_def
  returned_def raised_def final_def counters_def
  is_valid_image_format_def lower_def lower_char_def endswith_def
  photo_file_def corrupt_file_def str_int_def str_nat.simps digit_char_def
  basename_posix_def splitext_posix_def Let_def

subsection \<open>The extension check\<close>

text \<open>
  C10. For every filename, \<open>is_valid_image_format\<close> under a configuration built by
  \<open>Config.__init__\<close> is true if and only if the lowercased filename ends with
  \<open>.jpg\<close>, \<open>.jpeg\<close> or \<open>.png\<close>; that is, if and only if the filename itself ends
  with a dot and the letters j, p, g, or j, p, e, g, or p, n, g, each in either case.
  So it is false for every filename that ends, case-insensitively, in none of the
  three. The witness takes the theorem at three names it accepts and three it
  rejects.
\<close>

theorem is_valid_image_format_iff:
  "(is_valid_image_format (Config_init L mw q mfs ec cd ra rd) filename \<longleftrightarrow>
      (\<exists>pre. lower filename = pre @ ''.jpg'')
      \<or> (\<exists>pre. lower filename = pre @ ''.jpeg'')
      \<or> (\<exists>pre. lower filename = pre @ ''.png''))
   \<and> (is_valid_image_format (Config_init L mw q mfs ec cd ra rd) filename \<longleftrightarrow>
      (\<exists>pre a b c. filename = pre @ [CHR ''.'', a, b, c] \<and> a \<in> {CHR ''j'', CHR ''J''}
         \<and> b \<in> {CHR ''p'', CHR ''P''} \<and> c \<in> {CHR ''g'', CHR ''G''})
      \<or> (\<exists>pre a b c d. filename = pre @ [CHR ''.'', a, b, c, d] \<and> a \<in> {CHR ''j'', CHR ''J''}
         \<and> b \<in> {CHR ''p'', CHR ''P''} \<and> c \<in> {CHR ''e'', CHR ''E''}
         \<and> d \<in> {CHR ''g'', CHR ''G''})
      \<or> (\<exists>pre a b c. filename = pre @ [CHR ''.'', a, b, c] \<and> a \<in> {CHR ''p'', CHR ''P''}
         \<and> b \<in> {CHR ''n'', CHR ''N''} \<and> c \<in> {CHR ''g'', CHR ''G''}))"
proof -
  have 1: "is_valid_image_format (Config_init L mw q mfs ec cd ra rd) filename \<longleftrightarrow>
      (\<exists>pre. lower filename = pre @ ''.jpg'')
      \<or> (\<exists>pre. lower filename = pre @ ''.jpeg'')
      \<or> (\<exists>pre. lower filename = pre @ ''.png'')"
    by (simp add: is_valid_image_format_def Config_init_simps endswith_iff_suffix)
  have 2: "(\<exists>pre. lower filename = pre @ ''.jpg'') \<longleftrightarrow>
      (\<exists>pre a b c. filename = pre @ [CHR ''.'', a, b, c] \<and> a \<in> {CHR ''j'', CHR ''J''}
         \<and> b \<in> {CHR ''p'', CHR ''P''} \<and> c \<in> {CHR ''g'', CHR ''G''})"
    unfolding lower_suffix lower_jpg by blast
  have 3: "(\<exists>pre. lower filename = pre @ ''.jpeg'') \<longleftrightarrow>
      (\<exists>pre a b c d. filename = pre @ [CHR ''.'', a, b, c, d] \<and> a \<in> {CHR ''j'', CHR ''J''}
         \<and> b \<in> {CHR ''p'', CHR ''P''} \<and> c \<in> {CHR ''e'', CHR ''E''}
         \<and> d \<in> {CHR ''g'', CHR ''G''})"
    unfolding lower_suffix lower_jpeg by blast
  have 4: "(\<exists>pre. lower filename = pre @ ''.png'') \<longleftrightarrow>
      (\<exists>pre a b c. filename = pre @ [CHR ''.'', a, b, c] \<and> a \<in> {CHR ''p'', CHR ''P''}
         \<and> b \<in> {CHR ''n'', CHR ''N''} \<and> c \<in> {CHR ''g'', CHR ''G''})"
    unfolding lower_suffix lower_png by blast
  show ?thesis
    unfolding 1 2 3 4 by simp
qed

theorem is_valid_image_format_iff_witness:
  "is_valid_image_format default_config ''PHOTO.JPG''
   \<and> is_valid_image_format default_config ''scan.Jpeg''
   \<and> is_valid_image_format default_config ''a.b.png''
   \<and> \<not> is_valid_image_format default_config ''photo.jpg.bak''
   \<and> \<not> is_valid_image_format default_config ''notes.txt''
   \<and> \<not> is_valid_image_format default_config ''jpg''"
proof -
  note t = is_valid_image_format_iff [where L = example_lib and mw = 600 and q = 85 and mfs = 10
      and ec = True and cd = "''cache''" and ra = 3 and rd = 1, folded default_config_def]
  have "\<exists>pre a b c. ''PHOTO.JPG'' = pre @ [CHR ''.'', a, b, c] \<and> a \<in> {CHR ''j'', CHR ''J''}
         \<and> b \<in> {CHR ''p'', CHR ''P''} \<and> c \<in> {CHR ''g'', CHR ''G''}"
    by (rule exI [of _ "''PHOTO''"], rule exI [of _ "CHR ''J''"], rule exI [of _ "CHR ''P''"],
        rule exI [of _ "CHR ''G''"]) simp
  then have p1: "is_valid_image_format default_config ''PHOTO.JPG''"
    by (intro t [THEN conjunct2, THEN iffD2] disjI1)
  have "\<exists>pre a b c d. ''scan.Jpeg'' = pre @ [CHR ''.'', a, b, c, d] \<and> a \<in> {CHR ''j'', CHR ''J''}
         \<and> b \<in> {CHR ''p'', CHR ''P''} \<and> c \<in> {CHR ''e'', CHR ''E''}
         \<and> d \<in> {CHR ''g'', CHR ''G''}"
    by (rule exI [of _ "''scan''"], rule exI [of _ "CHR ''J''"], rule exI [of _ "CHR ''p''"],
        rule exI [of _ "CHR ''e''"], rule exI [of _ "CHR ''g''"]) simp
  then have p2: "is_valid_image_format default_config ''scan.Jpeg''"
    by - (rule t [THEN conjunct2, THEN iffD2], rule disjI2, rule disjI1)
  have "\<exists>pre a b c. ''a.b.png'' = pre @ [CHR ''.'', a, b, c] \<and> a \<in> {CHR ''p'', CHR ''P''}
         \<and> b \<in> {CHR ''n'', CHR ''N''} \<and> c \<in> {CHR ''g'', CHR ''G''}"
    by (rule exI [of _ "''a.b''"], rule exI [of _ "CHR ''p''"], rule exI [of _ "CHR ''n''"],
        rule exI [of _ "CHR ''g''"]) simp
  then have p3: "is_valid_image_format default_config ''a.b.png''"
    by - (rule t [THEN conjunct2, THEN iffD2], rule disjI2, rule disjI2)
  note p = p1 p2 p3
  have n: "\<not> is_valid_image_format default_config ''photo.jpg.bak''"
    "\<not> is_valid_image_format default_config ''notes.txt''"
    "\<not> is_valid_image_format default_config ''jpg''"
    using t [of "''photo.jpg.bak''", THEN conjunct1] t [of "''notes.txt''", THEN conjunct1]
      t [of "''jpg''", THEN conjunct1]
    by (simp_all add: endswith_iff_suffix [symmetric] endswith_def lower_def lower_char_def)
  from p n show ?thesis by simp
qed

subsection \<open>The border transform\<close>

text \<open>
  C1, as the spec states it, fails: on a 7 x 5 image under the minimum width 600 the
  transform returns an image of size (600, 428), the quotient 3000 / 7 = 428.57...
  truncated, where rounding to the nearest integer gives (600, 429).
\<close>

theorem add_dark_borders_size_counterexample:
  "width (white_image 7 5) < min_width default_config
   \<and> result_size (add_dark_borders example_lib default_config (white_image 7 5)) = Some (600, 428)
   \<and> spec_border_size default_config (white_image 7 5) = (600, 429)"
  by (simp add: spec_border_size_int result_size_def image_size_def add_dark_borders_def
        default_config_def Config_init_simps white_image_def filled_def int_truediv_def
        Image_resize_def Image_new_def c_int_def example_lib_def)

text \<open>
  C1, amended. For every image with positive sides and a width strictly less than the
  minimum width, and \<open>minWidth * height < 2 ^ 53\<close>: if PIL can allocate an image of
  the size \<open>(minWidth, floor(minWidth * height / width))\<close>, both sides being at most
  \<open>2 ^ 31 - 1\<close> and the memory there, the border transform returns an image of exactly
  that size, the quotient truncated, not rounded; if PIL cannot, the transform raises
  and returns no image. In that range the truncation of the exact quotient is the
  truncation of the double that Python's division returns.
\<close>

theorem add_dark_borders_size:
  assumes "0 < width img" and "width img < min_width cfg" and "0 < height img"
    and "min_width cfg * height img < 2 ^ 53"
  shows "(can_allocate L (min_width cfg, (min_width cfg * height img) div width img) \<longrightarrow>
            result_size (add_dark_borders L cfg img) =
              Some (min_width cfg, (min_width cfg * height img) div width img))
         \<and> (\<not> can_allocate L (min_width cfg, (min_width cfg * height img) div width img) \<longrightarrow>
            result_size (add_dark_borders L cfg img) = None)
         \<and> (\<forall>x. nearest_double (of_int (min_width cfg * height img) / of_int (width img)) x \<longrightarrow>
                \<lfloor>x\<rfloor> = (min_width cfg * height img) div width img)"
proof (intro conjI impI)
  assume "can_allocate L (min_width cfg, (min_width cfg * height img) div width img)"
  then show "result_size (add_dark_borders L cfg img) =
               Some (min_width cfg, (min_width cfg * height img) div width img)"
    using assms(1-3)
    by (simp add: add_dark_borders_narrow(1) result_size_def image_size_def filled_def)
next
  assume "\<not> can_allocate L (min_width cfg, (min_width cfg * height img) div width img)"
  with assms(1-3) have "isl (add_dark_borders L cfg img)"
    by (rule add_dark_borders_too_large)
  then show "result_size (add_dark_borders L cfg img) = None"
    by (cases "add_dark_borders L cfg img") (simp_all add: result_size_def)
next
  have "0 \<le> min_width cfg * height img"
    using assms(1-3) by simp
  then show "\<forall>x. nearest_double (of_int (min_width cfg * height img) / of_int (width img)) x \<longrightarrow>
                \<lfloor>x\<rfloor> = (min_width cfg * height img) div width img"
    using assms(1,4) by (simp add: nearest_double_floor)
qed

theorem add_dark_borders_size_witness:
  "0 < width (white_image 200 400)
   \<and> width (white_image 200 400) < min_width default_config
   \<and> 0 < height (white_image 200 400)
   \<and> min_width default_config * height (white_image 200 400) < 2 ^ 53
   \<and> can_allocate example_lib (600, 1200)
   \<and> result_size (add_dark_borders example_lib default_config (white_image 200 400))
       = Some (600, 1200)
   \<and> nearest_double (of_int (min_width default_config * height (white_image 200 400))
                      / of_int (width (white_image 200 400))) 1200
   \<and> \<lfloor>1200 :: rat\<rfloor> = 1200
   \<and> 0 < width (white_image 1 3579140)
   \<and> width (white_image 1 3579140) < min_width default_config
   \<and> 0 < height (white_image 1 3579140)
   \<and> min_width default_config * height (white_image 1 3579140) < 2 ^ 53
   \<and> \<not> can_allocate example_lib (600, 2147484000)
   \<and> result_size (add_dark_borders example_lib default_config (white_image 1 3579140)) = None"
proof -
  have h: "0 < width (white_image 200 400)"
    "width (white_image 200 400) < min_width default_config"
    "0 < height (white_image 200 400)"
    "min_width default_config * height (white_image 200 400) < 2 ^ 53"
    by (simp_all add: white_image_def filled_def default_config_simps)
  have g: "0 < width (white_image 1 3579140)"
    "width (white_image 1 3579140) < min_width default_config"
    "0 < height (white_image 1 3579140)"
    "min_width default_config * height (white_image 1 3579140) < 2 ^ 53"
    by (simp_all add: white_image_def filled_def default_config_simps)
  have c: "can_allocate example_lib (600, 1200)"
    "\<not> can_allocate example_lib (600, 2147484000)"
    by (simp_all add: can_allocate_def c_int_def example_lib_def)
  have "is_double (of_int 1200)"
    by (rule is_double_int) simp
  then have d: "nearest_double (of_int (min_width default_config * height (white_image 200 400))
                      / of_int (width (white_image 200 400))) 1200"
    by (simp add: nearest_double_exact white_image_def filled_def default_config_simps)
  from add_dark_borders_size [OF h, of example_lib] add_dark_borders_size [OF g, of example_lib]
    h g c d
  show ?thesis
    by (simp add: white_image_def filled_def default_config_simps)
qed

text \<open>
  At the 7 x 5 image of the counterexample, every double nearest to 3000 / 7 has the
  integer part 428.
\<close>

lemma seven_by_five_double:
  assumes "nearest_double (3000 / 7) x"
  shows "\<lfloor>x\<rfloor> = 428"
proof -
  have "nearest_double (of_int 3000 / of_int 7) x"
    using assms by simp
  then have "\<lfloor>x\<rfloor> = 3000 div 7"
    by (intro nearest_double_floor) simp_all
  then show ?thesis by simp
qed

text \<open>
  C2. For every image with positive sides that is narrower than the minimum width
  (and \<open>minWidth * height < 2 ^ 53\<close> and the new size one PIL can allocate, as for C1),
  the resized image is pasted at (0, 0), and it has the size of the canvas: the output
  has the size \<open>(min_width, new_height)\<close>, and every pixel of it is a pixel of the
  resized image. No pixel of the black canvas is left exposed, on the right, at the
  bottom or anywhere else; the witness evaluates a white 200 x 400 image under the
  minimum width 600, whose bottom-right output pixel is white.
\<close>

theorem add_dark_borders_no_fill_exposed:
  assumes "0 < width img" and "width img < min_width cfg" and "0 < height img"
    and "min_width cfg * height img < 2 ^ 53"
    and "can_allocate L (min_width cfg, min_width cfg * height img div width img)"
  shows "result_size (add_dark_borders L cfg img)
           = Some (min_width cfg, min_width cfg * height img div width img)
         \<and> (\<forall>x y. 0 \<le> x \<and> x < min_width cfg
                   \<and> 0 \<le> y \<and> y < min_width cfg * height img div width img \<longrightarrow>
                result_pixel (add_dark_borders L cfg img) x y
                  = Some (lanczos L img
                            (min_width cfg, min_width cfg * height img div width img) x y))"
  by (simp add: add_dark_borders_narrow(1) [OF assms(1-3,5)] result_size_def result_pixel_def
      image_size_def filled_def paste_def)

theorem add_dark_borders_no_fill_exposed_witness:
  "0 < width (white_image 200 400)
   \<and> width (white_image 200 400) < min_width default_config
   \<and> 0 < height (white_image 200 400)
   \<and> min_width default_config * height (white_image 200 400) < 2 ^ 53
   \<and> can_allocate example_lib (600, 1200)
   \<and> result_size (add_dark_borders example_lib default_config (white_image 200 400))
     = Some (600, 1200)
   \<and> result_pixel (add_dark_borders example_lib default_config (white_image 200 400)) 599 1199
     = Some (255, 255, 255)
   \<and> result_pixel (add_dark_borders example_lib default_config (white_image 200 400)) 599 1199
     \<noteq> Some (0, 0, 0)"
proof -
  have h: "0 < width (white_image 200 400)"
    "width (white_image 200 400) < min_width default_config"
    "0 < height (white_image 200 400)"
    "min_width default_config * height (white_image 200 400) < 2 ^ 53"
    by (simp_all add: white_image_def filled_def default_config_simps)
  have n: "600 * height (white_image 200 400) div width (white_image 200 400) = 1200"
    "min_width default_config = 600"
    by (simp_all add: white_image_def filled_def default_config_simps)
  have c: "can_allocate example_lib (600, 1200)"
    by (simp add: can_allocate_def c_int_def example_lib_def)
  then have c': "can_allocate example_lib (min_width default_config,
      min_width default_config * height (white_image 200 400) div width (white_image 200 400))"
    by (simp only: n)
  have p: "lanczos example_lib (white_image 200 400) (600, 1200) 599 1199 = (255, 255, 255)"
    by (simp add: example_lib_def nearest_def white_image_def filled_def)
  from add_dark_borders_no_fill_exposed [OF h c']
  have "result_size (add_dark_borders example_lib default_config (white_image 200 400))
          = Some (600, 1200)
        \<and> (\<forall>x y. 0 \<le> x \<and> x < 600 \<and> 0 \<le> y \<and> y < 1200 \<longrightarrow>
               result_pixel (add_dark_borders example_lib default_config (white_image 200 400)) x y
                 = Some (lanczos example_lib (white_image 200 400) (600, 1200) x y))"
    by (simp only: n, simp)
  with h p c show ?thesis
    by simp
qed

subsection \<open>Validation\<close>



text \<open>
  C8. For every file that passes the extension, existence and size checks and that PIL
  opens and verifies, \<open>validate_image\<close> returns valid, an empty message and
  \<open>needs_borders = (width < min_width)\<close>; at \<open>width = min_width\<close> it is false.
\<close>

theorem validate_image_needs_borders:
  assumes "is_valid_image_format cfg p" and "files s p = Some f"
    and "int (st_size f) \<le> max_file_size_mb cfg * (1024 * 1024)"
    and "pil_open f = Inr img" and "pil_verify f = None"
  shows "fst (validate_image L cfg s p) = (True, [], width img < min_width cfg)
         \<and> (width img = min_width cfg \<longrightarrow> fst (validate_image L cfg s p) = (True, [], False))"
  using assms
  by (simp add: validate_image_def os_path_exists_def os_path_getsize_def Image_open_def Let_def)

theorem validate_image_needs_borders_witness:
  "fst (validate_image example_lib default_config example_world ''in/a.jpg'') = (True, [], True)
   \<and> width (white_image 600 400) = min_width default_config
   \<and> fst (validate_image example_lib default_config
            (example_world\<lparr>files := [''in/a.jpg'' \<mapsto> photo_file\<lparr>pil_open := Inr (white_image 600 400)\<rparr>]\<rparr>)
            ''in/a.jpg'') = (True, [], False)"
proof -
  have cfg: "max_file_size_mb default_config = 10" "min_width default_config = 600"
    by (simp_all add: default_config_def Config_init_simps)
  have w: "width (white_image 200 400) = 200" "width (white_image 600 400) = 600"
    by (simp_all add: white_image_def filled_def)
  show ?thesis
    using validate_image_needs_borders [where cfg = default_config and L = example_lib
        and s = example_world and p = "''in/a.jpg''" and f = photo_file
        and img = "white_image 200 400"]
      validate_image_needs_borders [where cfg = default_config and L = example_lib
        and s = "example_world\<lparr>files := [''in/a.jpg'' \<mapsto> photo_file\<lparr>pil_open := Inr (white_image 600 400)\<rparr>]\<rparr>"
        and p = "''in/a.jpg''" and f = "photo_file\<lparr>pil_open := Inr (white_image 600 400)\<rparr>"
        and img = "white_image 600 400"]
    by (simp add: example_world_simps example_valid_names cfg w photo_file_def)
qed

subsection \<open>The marker cache\<close>

text \<open>
  C5. With caching disabled \<open>is_cached\<close> returns false for every path. With caching
  enabled it returns true if and only if the cache key of the path exists and a file
  named \<open>{cacheKey}.txt\<close> exists in the cache directory, the key being the digest of
  the path, an underscore, the modification time, an underscore and the size; the
  key exists when the path can be stat'ed and that string encodes, and then
  \<open>is_cached\<close> returns whether the marker exists. On a path that cannot be stat'ed
  it raises \<open>FileNotFoundError\<close>, and on one whose key string does not encode
  \<open>UnicodeEncodeError\<close>: it returns nothing.
\<close>

theorem is_cached_iff:
  "(\<not> enable_caching cfg \<longrightarrow> is_cached L cfg s p = Returns False s)
   \<and> (enable_caching cfg \<longrightarrow>
        (returned (is_cached L cfg s p) = Some True \<longleftrightarrow>
           (\<exists>f. files s p = Some f
              \<and> str_encodable (p @ ''_'' @ str_float L (st_mtime f) @ ''_''
                                @ str_int (int (st_size f)))
              \<and> files s (path_join L (cache_dir cfg)
                           (md5_hexdigest L (p @ ''_'' @ str_float L (st_mtime f) @ ''_''
                                             @ str_int (int (st_size f))) @ ''.txt'')) \<noteq> None)))
   \<and> (enable_caching cfg \<and> files s p = Some f
        \<and> str_encodable (p @ ''_'' @ str_float L (st_mtime f) @ ''_''
                          @ str_int (int (st_size f))) \<longrightarrow>
        returned (is_cached L cfg s p) =
          Some (files s (path_join L (cache_dir cfg)
                           (md5_hexdigest L (p @ ''_'' @ str_float L (st_mtime f) @ ''_''
                                             @ str_int (int (st_size f))) @ ''.txt'')) \<noteq> None))
   \<and> (enable_caching cfg \<and> files s p = None \<longrightarrow>
        returned (is_cached L cfg s p) = None
        \<and> raised (is_cached L cfg s p) = Some (FileNotFoundError p))
   \<and> (enable_caching cfg \<and> files s p = Some f
        \<and> \<not> str_encodable (p @ ''_'' @ str_float L (st_mtime f) @ ''_''
                            @ str_int (int (st_size f))) \<longrightarrow>
        returned (is_cached L cfg s p) = None
        \<and> raised (is_cached L cfg s p) =
            Some (UnicodeEncodeError (p @ ''_'' @ str_float L (st_mtime f) @ ''_''
                                      @ str_int (int (st_size f)))))"
  by (auto simp add: is_cached_def get_cache_key_def os_stat_def os_path_exists_def returned_def
      raised_def Let_def split: option.splits)

theorem is_cached_iff_witness:
  "returned (is_cached example_lib default_config cached_world ''in/a.jpg'') = Some True
   \<and> returned (is_cached example_lib default_config example_world ''in/a.jpg'') = Some False
   \<and> is_cached example_lib nocache_config cached_world ''in/a.jpg'' = Returns False cached_world
   \<and> returned (is_cached example_lib default_config example_world ''in/missing.jpg'') = None
   \<and> raised (is_cached example_lib default_config example_world ''in/missing.jpg'')
       = Some (FileNotFoundError ''in/missing.jpg'')
   \<and> returned (is_cached example_lib default_config escaped_world escaped_name) = None
   \<and> raised (is_cached example_lib default_config escaped_world escaped_name)
       = Some (UnicodeEncodeError (escaped_name @ ''_1700000000.0_2048''))"
proof -
  have f: "files cached_world ''in/a.jpg'' = Some photo_file"
    "files example_world ''in/a.jpg'' = Some photo_file"
    "files cached_world ''cache/in/a.jpg_1700000000.0_2048.txt'' \<noteq> None"
    "files example_world ''cache/in/a.jpg_1700000000.0_2048.txt'' = None"
    "files example_world ''in/missing.jpg'' = None"
    "files escaped_world escaped_name = Some photo_file"
    by (simp_all add: cached_world_def example_world_def escaped_world_def escaped_name_def)
  have k: "path_join example_lib (cache_dir default_config)
             (md5_hexdigest example_lib (''in/a.jpg'' @ ''_''
                @ str_float example_lib (st_mtime photo_file) @ ''_''
                @ str_int (int (st_size photo_file))) @ ''.txt'')
           = ''cache/in/a.jpg_1700000000.0_2048.txt''"
    by (simp add: example_lib_def default_config_simps photo_file_def str_int_def str_nat.simps
        digit_char_def)
  have a: "str_encodable (''in/a.jpg'' @ ''_''
                @ str_float example_lib (st_mtime photo_file) @ ''_''
                @ str_int (int (st_size photo_file)))"
    by (simp add: example_lib_simps is_ascii_def)
  have x: "escaped_name @ ''_'' @ str_float example_lib (st_mtime photo_file) @ ''_''
             @ str_int (int (st_size photo_file)) = escaped_name @ ''_1700000000.0_2048''"
    by (simp add: example_lib_simps photo_file_def str_int_def str_nat.simps digit_char_def)
  have n: "\<not> str_encodable (escaped_name @ ''_1700000000.0_2048'')"
    by (simp add: escaped_name_def is_ascii_def)
  have on: "enable_caching default_config" and off: "\<not> enable_caching nocache_config"
    by (simp_all add: default_config_simps nocache_config_simps)
  have "\<exists>f. files cached_world ''in/a.jpg'' = Some f
          \<and> str_encodable (''in/a.jpg'' @ ''_''
                  @ str_float example_lib (st_mtime f) @ ''_''
                  @ str_int (int (st_size f)))
          \<and> files cached_world (path_join example_lib (cache_dir default_config)
               (md5_hexdigest example_lib (''in/a.jpg'' @ ''_''
                  @ str_float example_lib (st_mtime f) @ ''_''
                  @ str_int (int (st_size f))) @ ''.txt'')) \<noteq> None"
    by (rule exI [of _ photo_file]) (simp only: k f a, simp)
  with on is_cached_iff [where L = example_lib and cfg = default_config and s = cached_world
      and p = "''in/a.jpg''"]
  have 1: "returned (is_cached example_lib default_config cached_world ''in/a.jpg'') = Some True"
    by blast
  from on f(2) a is_cached_iff [where L = example_lib and cfg = default_config
      and s = example_world and p = "''in/a.jpg''" and f = photo_file]
  have "returned (is_cached example_lib default_config example_world ''in/a.jpg'')
          = Some (files example_world (path_join example_lib (cache_dir default_config)
               (md5_hexdigest example_lib (''in/a.jpg'' @ ''_''
                  @ str_float example_lib (st_mtime photo_file) @ ''_''
                  @ str_int (int (st_size photo_file))) @ ''.txt'')) \<noteq> None)"
    by blast
  then have 2: "returned (is_cached example_lib default_config example_world ''in/a.jpg'')
                  = Some False"
    by (simp only: k f) simp
  from off is_cached_iff [where L = example_lib and cfg = nocache_config and s = cached_world
      and p = "''in/a.jpg''"]
  have 3: "is_cached example_lib nocache_config cached_world ''in/a.jpg''
             = Returns False cached_world"
    by blast
  from on f(5) is_cached_iff [where L = example_lib and cfg = default_config
      and s = example_world and p = "''in/missing.jpg''"]
  have 4: "returned (is_cached example_lib default_config example_world ''in/missing.jpg'') = None
           \<and> raised (is_cached example_lib default_config example_world ''in/missing.jpg'')
               = Some (FileNotFoundError ''in/missing.jpg'')"
    by blast
  have n': "\<not> str_encodable (escaped_name @ ''_''
      @ str_float example_lib (st_mtime photo_file) @ ''_'' @ str_int (int (st_size photo_file)))"
    unfolding x by (rule n)
  from on f(6) n' is_cached_iff [where L = example_lib and cfg = default_config
      and s = escaped_world and p = escaped_name and f = photo_file]
  have "returned (is_cached example_lib default_config escaped_world escaped_name) = None
        \<and> raised (is_cached example_lib default_config escaped_world escaped_name)
            = Some (UnicodeEncodeError (escaped_name @ ''_''
                @ str_float example_lib (st_mtime photo_file) @ ''_''
                @ str_int (int (st_size photo_file))))"
    by blast
  then have 5: "returned (is_cached example_lib default_config escaped_world escaped_name) = None
        \<and> raised (is_cached example_lib default_config escaped_world escaped_name)
            = Some (UnicodeEncodeError (escaped_name @ ''_1700000000.0_2048''))"
    by (simp only: x)
  from 1 2 3 4 5 show ?thesis by blast
qed

subsection \<open>One file\<close>

text \<open>
  C3. With caching enabled, \<open>process_single_image\<close> on a path that \<open>os.stat\<close> fails on
  raises the \<open>FileNotFoundError\<close> of \<open>get_cache_key\<close>: it returns no boolean, no
  counter changes, and the only file-system call made is that \<open>stat\<close>, so validation
  has not run. With caching enabled, whenever \<open>is_cached\<close> returns and validation
  does run, it does not answer ``File does not exist''; with caching disabled, a
  missing file with a supported extension gets that answer and counts as an error.
\<close>

theorem process_single_image_stat_fails:
  "(enable_caching cfg \<and> files s p = None \<longrightarrow>
      process_single_image L cfg s p = Raises (FileNotFoundError p) (traced (EvStat p) s))
   \<and> (enable_caching cfg \<and> is_cached L cfg s p = Returns False s1 \<longrightarrow>
      fst (validate_image L cfg s1 p) \<noteq> (False, ''File does not exist'', False))
   \<and> (\<not> enable_caching cfg \<and> is_valid_image_format cfg p \<and> files s p = None \<longrightarrow>
      fst (validate_image L cfg s p) = (False, ''File does not exist'', False)
      \<and> process_single_image L cfg s p =
          Returns False ((traced (EvExists p) s)\<lparr>error_count := error_count s + 1\<rparr>))"
proof (intro conjI impI)
  assume "enable_caching cfg \<and> files s p = None"
  then show "process_single_image L cfg s p = Raises (FileNotFoundError p) (traced (EvStat p) s)"
    by (simp add: process_single_image_def is_cached_unfold)
next
  assume a: "enable_caching cfg \<and> is_cached L cfg s p = Returns False s1"
  then have "files s p \<noteq> None"
    by (auto simp add: is_cached_unfold split: option.splits)
  moreover have "files s1 = files s"
    using is_cached_frame(2) [of L cfg s p] a by (simp add: final_def)
  ultimately show "fst (validate_image L cfg s1 p) \<noteq> (False, ''File does not exist'', False)"
    by (simp add: validate_image_not_missing)
next
  assume a: "\<not> enable_caching cfg \<and> is_valid_image_format cfg p \<and> files s p = None"
  then show "fst (validate_image L cfg s p) = (False, ''File does not exist'', False)"
    by (simp add: validate_image_def os_path_exists_def)
  from a show "process_single_image L cfg s p =
          Returns False ((traced (EvExists p) s)\<lparr>error_count := error_count s + 1\<rparr>)"
    by (simp add: process_single_image_def is_cached_unfold validate_image_def os_path_exists_def)
qed

theorem process_single_image_stat_fails_witness:
  "process_single_image example_lib default_config example_world ''in/missing.jpg''
     = Raises (FileNotFoundError ''in/missing.jpg'')
         (traced (EvStat ''in/missing.jpg'') example_world)
   \<and> returned (process_single_image example_lib default_config example_world ''in/missing.jpg'')
     = None
   \<and> counters (final (process_single_image example_lib default_config example_world
                         ''in/missing.jpg'')) = (7, 7, 7)
   \<and> is_cached example_lib default_config example_world ''in/a.jpg''
     = Returns False (traced (EvExists ''cache/in/a.jpg_1700000000.0_2048.txt'')
                       (traced (EvStat ''in/a.jpg'') example_world))
   \<and> fst (validate_image example_lib default_config
            (traced (EvExists ''cache/in/a.jpg_1700000000.0_2048.txt'')
               (traced (EvStat ''in/a.jpg'') example_world)) ''in/a.jpg'')
     \<noteq> (False, ''File does not exist'', False)
   \<and> fst (validate_image example_lib nocache_config example_world ''in/missing.jpg'')
     = (False, ''File does not exist'', False)
   \<and> returned (process_single_image example_lib nocache_config example_world ''in/missing.jpg'')
     = Some False
   \<and> counters (final (process_single_image example_lib nocache_config example_world
                         ''in/missing.jpg'')) = (7, 7, 8)"
proof -
  have c: "is_cached example_lib default_config example_world ''in/a.jpg''
     = Returns False (traced (EvExists ''cache/in/a.jpg_1700000000.0_2048.txt'')
                       (traced (EvStat ''in/a.jpg'') example_world))"
    by (simp add: is_cached_unfold is_ascii_def default_config_simps example_lib_simps example_world_simps
        cached_world_simps photo_file_def str_int_def str_nat.simps digit_char_def Let_def)
  have v: "is_valid_image_format nocache_config ''in/missing.jpg''"
    by (simp add: is_valid_image_format_def nocache_config_simps lower_def lower_char_def
        endswith_def)
  note t = process_single_image_stat_fails [where L = example_lib and s = example_world]
  show ?thesis
    using t [where cfg = default_config and p = "''in/missing.jpg''"]
      t [where cfg = default_config and p = "''in/a.jpg''"
        and ?s1.0 = "traced (EvExists ''cache/in/a.jpg_1700000000.0_2048.txt'')
                       (traced (EvStat ''in/a.jpg'') example_world)"]
      t [where cfg = nocache_config and p = "''in/missing.jpg''"]
    by (simp add: c v default_config_simps nocache_config_simps example_world_simps returned_def
        final_def counters_def example_world_counts)
qed

text \<open>
  C9. For every path on which \<open>is_cached\<close> returns true, \<open>process_single_image\<close>
  returns true with the skipped count one higher and the other two counters as they
  were; the files are those of before (nothing is written, no output, no marker), and
  the only file-system calls made are the \<open>stat\<close> of the source and the existence
  test of the marker by \<open>is_cached\<close>: the source is neither opened nor written.
\<close>

theorem process_single_image_cached:
  assumes "is_cached L cfg s p = Returns True s1"
  shows "process_single_image L cfg s p = Returns True (s1\<lparr>skipped_count := skipped_count s1 + 1\<rparr>)
         \<and> counters (final (process_single_image L cfg s p))
             = (processed_count s, skipped_count s + 1, error_count s)
         \<and> files (final (process_single_image L cfg s p)) = files s
         \<and> (\<exists>m. trace (final (process_single_image L cfg s p)) = trace s @ [EvStat p, EvExists m])"
proof -
  have c: "counters s1 = counters s" "files s1 = files s"
    using is_cached_frame(1,2) [of L cfg s p] assms by (simp_all add: final_def)
  have t: "\<exists>m. trace s1 = trace s @ [EvStat p, EvExists m]"
    using assms by (auto simp add: is_cached_unfold Let_def split: if_splits option.splits)
  have r: "process_single_image L cfg s p = Returns True (s1\<lparr>skipped_count := skipped_count s1 + 1\<rparr>)"
    using assms by (simp add: process_single_image_def)
  show ?thesis
    using c t by (simp add: r final_def counters_def)
qed

theorem process_single_image_cached_witness:
  "is_cached example_lib default_config cached_world ''in/a.jpg''
     = Returns True (traced (EvExists ''cache/in/a.jpg_1700000000.0_2048.txt'')
                      (traced (EvStat ''in/a.jpg'') cached_world))
   \<and> returned (process_single_image example_lib default_config cached_world ''in/a.jpg'')
     = Some True
   \<and> counters cached_world = (7, 7, 7)
   \<and> counters (final (process_single_image example_lib default_config cached_world ''in/a.jpg''))
     = (7, 8, 7)
   \<and> trace (final (process_single_image example_lib default_config cached_world ''in/a.jpg''))
     = [EvStat ''in/a.jpg'', EvExists ''cache/in/a.jpg_1700000000.0_2048.txt'']"
proof -
  have c: "is_cached example_lib default_config cached_world ''in/a.jpg''
     = Returns True (traced (EvExists ''cache/in/a.jpg_1700000000.0_2048.txt'')
                      (traced (EvStat ''in/a.jpg'') cached_world))"
    by (simp add: is_cached_unfold is_ascii_def default_config_simps example_lib_simps cached_world_simps
        photo_file_def str_int_def str_nat.simps digit_char_def Let_def)
  from process_single_image_cached [OF c] show ?thesis
    by (simp add: c returned_def final_def counters_def cached_world_simps)
qed

text \<open>
  Processing the photo of the example world writes its marker, and processing it again
  is a skip.
\<close>

lemma reprocess_is_skipped:
  "returned (process_single_image example_lib default_config
      (final (process_single_image example_lib default_config example_world ''in/a.jpg''))
      ''in/a.jpg'') = Some True
   \<and> counters (final (process_single_image example_lib default_config example_world ''in/a.jpg''))
       = (8, 7, 7)
   \<and> counters (final (process_single_image example_lib default_config
      (final (process_single_image example_lib default_config example_world ''in/a.jpg''))
      ''in/a.jpg'')) = (8, 8, 7)"
  by (simp add: eval_defs)

subsection \<open>A directory\<close>




text \<open>
  C7, at a batch of two names with caching enabled, the first a name that cannot be
  stat'ed, the second a good photo. The \<open>FileNotFoundError\<close> of the first file leaves
  \<open>process_directory\<close>: no stats are returned, the error count stays 0, and the photo
  is never looked at (the trace ends with the failed \<open>stat\<close>). With caching disabled
  the same batch runs to its end: one error, one file processed.
\<close>

theorem process_directory_aborts_on_missing_file:
  "raised (process_directory example_lib default_config ghost_world ''in'')
     = Some (FileNotFoundError ''in/ghost.jpg'')
   \<and> returned (process_directory example_lib default_config ghost_world ''in'') = None
   \<and> counters (final (process_directory example_lib default_config ghost_world ''in''))
     = (0, 0, 0)
   \<and> trace (final (process_directory example_lib default_config ghost_world ''in''))
     = [EvMakedirs (output_dir default_config), EvWalk ''in'', EvStat ''in/ghost.jpg'']
   \<and> returned (process_directory example_lib nocache_config ghost_world ''in'')
     = Some [(''processed'', 1), (''skipped'', 0), (''errors'', 1), (''total'', 2)]"
  by (simp add: eval_defs ghost_world_def)

end
